theory Spec2Isabelle
  imports Complex_Main
begin

section \<open>Errors and results\<close>

text \<open>
  Every exception the Python source can raise is a value; a fallible function returns
  \<open>error + 'a\<close> with \<open>Inl\<close> for the raised exception.
\<close>

datatype error =
    ValueError | TypeError | IndexError | OverflowError
  | AssertionError | RecursionError | LinAlgError

definition bind_r :: "error + 'a \<Rightarrow> ('a \<Rightarrow> error + 'b) \<Rightarrow> error + 'b" where
  "bind_r x f = (case x of Inl e \<Rightarrow> Inl e | Inr v \<Rightarrow> f v)"

section \<open>The circuit collaborator\<close>

text \<open>
  Modelled from the spec: the \<open>Circuit\<close> class is not part of the sources. The spec
  describes it as an append-only record of primitive gate invocations, each one of
  RY, RZ, U3, GlobalPhase, CX, CZ, UCRZ, kept in insertion order in \<open>circuit_log\<close>;
  a circuit is created for a number of qubits (\<open>output_framework(2)\<close>).
  Qubit indices are Python integers, angles are floats (here: reals).
\<close>

datatype gate =
    RY real int
  | RZ real int
  | U3 real real real int
  | GlobalPhase real
  | CX int int
  | CZ int int
  | UCRZ "real list" "int list" int

record circuit =
  circuit_num_qubits :: nat
  circuit_log :: "gate list"

definition append_gate :: "circuit \<Rightarrow> gate \<Rightarrow> circuit" where
  "append_gate c g = c\<lparr>circuit_log := circuit_log c @ [g]\<rparr>"

section \<open>The CZ-basis uniformly controlled rotation (\<open>get_ucry_cz\<close>)\<close>

definition EPSILON :: real where
  "EPSILON = 1 / 10 ^ 10"

text \<open>\<open>np.binary_repr(n)\<close> for a non-negative \<open>n\<close>, and \<open>bin(n)[2:]\<close>: the binary digits,
  most significant first, \<open>"0"\<close> for zero.\<close>

definition bit_char :: "nat \<Rightarrow> char" where
  "bit_char b = (if b = 0 then CHR ''0'' else CHR ''1'')"

fun binary_repr :: "nat \<Rightarrow> string" where
  "binary_repr n = (if n < 2 then [bit_char n] else binary_repr (n div 2) @ [bit_char (n mod 2)])"

declare binary_repr.simps [simp del]

text \<open>\<open>s.rstrip("0")\<close>\<close>

definition rstrip0 :: "string \<Rightarrow> string" where
  "rstrip0 s = rev (dropWhile (\<lambda>c. c = CHR ''0'') (rev s))"

text \<open>The control index chosen in iteration \<open>i\<close> of the loop of \<open>get_ucry_cz\<close>;
  \<open>len_angles\<close> is \<open>len(angles)\<close> and \<open>num_controls\<close> is \<open>len(control_indices)\<close>.\<close>

definition ucry_control_index :: "nat \<Rightarrow> nat \<Rightarrow> nat \<Rightarrow> int" where
  "ucry_control_index len_angles num_controls i =
     (if int i \<noteq> int len_angles - 1
      then (let binary_rep = binary_repr (i + 1)
            in int (length binary_rep) - int (length (rstrip0 binary_rep)))
      else int num_controls - 1)"

text \<open>The \<open>for (i, angle) in enumerate(angles)\<close> loop. \<open>num_angles\<close> is the length of the
  list before the angle transform, \<open>len_angles\<close> the length of the list that is iterated.
  Reading \<open>control_indices[control_index]\<close> out of range raises \<open>IndexError\<close>
  (\<open>control_index\<close> is never negative here, so Python's negative indexing plays no role).\<close>

fun ucry_cz_loop ::
  "circuit \<Rightarrow> int list \<Rightarrow> int \<Rightarrow> nat \<Rightarrow> nat \<Rightarrow> nat \<Rightarrow> real list \<Rightarrow> error + circuit" where
  "ucry_cz_loop c control_indices target_index num_angles len_angles i [] = Inr c"
| "ucry_cz_loop c control_indices target_index num_angles len_angles i (angle # rest) =
     (let c1 = (if \<bar>angle\<bar> > EPSILON then append_gate c (RY angle target_index) else c);
          control_index = ucry_control_index len_angles (length control_indices) i
      in if int i < int num_angles - 1 then
           (if 0 \<le> control_index \<and> control_index < int (length control_indices)
            then ucry_cz_loop
                   (append_gate c1 (CZ (control_indices ! nat control_index) target_index))
                   control_indices target_index num_angles len_angles (i + 1) rest
            else Inl IndexError)
         else ucry_cz_loop c1 control_indices target_index num_angles len_angles (i + 1) rest)"

text \<open>
  \<open>get_ucry_cz\<close>. The helper \<open>decompose_uc_rotations\<close> lives in
  \<open>qickit.circuit.circuit_utils\<close>, which is not among the sources; its effect on the
  (copied) angle list is the parameter \<open>decompose_uc_rotations\<close>.
\<close>

definition get_ucry_cz ::
  "(real list \<Rightarrow> real list) \<Rightarrow> circuit \<Rightarrow> int list \<Rightarrow> real list \<Rightarrow> error + circuit" where
  "get_ucry_cz decompose_uc_rotations c qubit_indices angles =
     (let num_angles = length angles;
          control_indices = butlast qubit_indices
      in if qubit_indices = [] then Inl IndexError
         else (let target_index = last qubit_indices
               in if control_indices = [] then
                    (case angles of
                       [] \<Rightarrow> Inl IndexError
                     | a0 # _ \<Rightarrow>
                         Inr (if \<bar>a0\<bar> > EPSILON then append_gate c (RY a0 target_index) else c))
                  else (let angles' = decompose_uc_rotations angles
                        in ucry_cz_loop c control_indices target_index
                             num_angles (length angles') 0 angles')))"

text \<open>Two readings of the control position \<open>c(i)\<close>: the number of trailing zero bits of a
  positive number (the position of its least significant one bit), and the position of
  the least significant zero bit.\<close>

fun trailing_zeros :: "nat \<Rightarrow> nat" where
  "trailing_zeros n = (if n = 0 \<or> odd n then 0 else Suc (trailing_zeros (n div 2)))"

declare trailing_zeros.simps [simp del]

function lowest_zero_bit :: "nat \<Rightarrow> nat" where
  "lowest_zero_bit n = (if even n then 0 else Suc (lowest_zero_bit (n div 2)))"
  by pat_completeness auto
termination
  by (relation "measure (\<lambda>n. n)") (auto elim: oddE)

declare lowest_zero_bit.simps [simp del]

text \<open>The gates one iteration of the loop contributes when the list has \<open>2 ^ k\<close> angles.\<close>

definition ucry_cz_step :: "int list \<Rightarrow> int \<Rightarrow> nat \<Rightarrow> real list \<Rightarrow> nat \<Rightarrow> gate list" where
  "ucry_cz_step control_indices target_index n angles i =
     (if \<bar>angles ! i\<bar> > EPSILON then [RY (angles ! i) target_index] else []) @
     (if i < n - 1 then [CZ (control_indices ! trailing_zeros (i + 1)) target_index] else [])"


text \<open>The same iteration as the specification words it: the control is taken at the
  position of the least significant zero bit of \<open>i + 1\<close>.\<close>

definition ucry_cz_step_spec :: "int list \<Rightarrow> int \<Rightarrow> nat \<Rightarrow> real list \<Rightarrow> nat \<Rightarrow> gate list" where
  "ucry_cz_step_spec control_indices target_index n angles i =
     (if \<bar>angles ! i\<bar> > EPSILON then [RY (angles ! i) target_index] else []) @
     (if i < n - 1 then [CZ (control_indices ! lowest_zero_bit (i + 1)) target_index] else [])"

section \<open>Complex matrices\<close>

text \<open>
  A numpy array of shape \<open>(r, c)\<close> is a list of \<open>r\<close> rows of \<open>c\<close> entries. The numpy
  operations the sources use (\<open>np.eye\<close>, \<open>np.kron\<close>, \<open>+\<close>, \<open>@\<close>, \<open>.conj().T\<close>,
  \<open>np.diag\<close>, \<open>.diagonal()\<close>) are given by their entries; floats are real numbers.
\<close>

type_synonym matrix = "complex list list"

definition mk_mat :: "nat \<Rightarrow> nat \<Rightarrow> (nat \<Rightarrow> nat \<Rightarrow> complex) \<Rightarrow> matrix" where
  "mk_mat r c f = map (\<lambda>i. map (\<lambda>j. f i j) [0..<c]) [0..<r]"

definition nrows :: "matrix \<Rightarrow> nat" where
  "nrows m = length m"

definition ncols :: "matrix \<Rightarrow> nat" where
  "ncols m = (case m of [] \<Rightarrow> 0 | row # _ \<Rightarrow> length row)"

definition is_square :: "matrix \<Rightarrow> bool" where
  "is_square m = list_all (\<lambda>row. length row = length m) m"

definition eye :: "nat \<Rightarrow> matrix" where
  "eye n = mk_mat n n (\<lambda>i j. if i = j then 1 else 0)"

definition zeros :: "nat \<Rightarrow> nat \<Rightarrow> matrix" where
  "zeros r c = mk_mat r c (\<lambda>i j. 0)"

definition conj_transpose :: "matrix \<Rightarrow> matrix" where
  "conj_transpose m = mk_mat (ncols m) (nrows m) (\<lambda>i j. cnj (m ! j ! i))"

definition kron :: "matrix \<Rightarrow> matrix \<Rightarrow> matrix" where
  "kron a b =
     mk_mat (nrows a * nrows b) (ncols a * ncols b)
       (\<lambda>i j. a ! (i div nrows b) ! (j div ncols b) * b ! (i mod nrows b) ! (j mod ncols b))"

text \<open>\<open>a + b\<close> with numpy's broadcasting: an axis of length one is stretched, any other
  mismatch of the shapes raises \<open>ValueError\<close>.\<close>

definition mat_add :: "matrix \<Rightarrow> matrix \<Rightarrow> error + matrix" where
  "mat_add a b =
     (let ra = nrows a; ca = ncols a; rb = nrows b; cb = ncols b
      in if (ra = rb \<or> ra = 1 \<or> rb = 1) \<and> (ca = cb \<or> ca = 1 \<or> cb = 1)
         then Inr (mk_mat (if ra = 1 then rb else ra) (if ca = 1 then cb else ca)
                (\<lambda>i j. a ! (if ra = 1 then 0 else i) ! (if ca = 1 then 0 else j) +
                       b ! (if rb = 1 then 0 else i) ! (if cb = 1 then 0 else j)))
         else Inl ValueError)"

definition mat_mul :: "matrix \<Rightarrow> matrix \<Rightarrow> matrix" where
  "mat_mul a b =
     mk_mat (nrows a) (ncols b) (\<lambda>i j. sum_list (map (\<lambda>k. a ! i ! k * b ! k ! j) [0..<ncols a]))"

text \<open>\<open>a @ b\<close>: the inner dimensions must agree.\<close>

definition matmul :: "matrix \<Rightarrow> matrix \<Rightarrow> error + matrix" where
  "matmul a b = (if ncols a = nrows b then Inr (mat_mul a b) else Inl ValueError)"

definition diag :: "complex list \<Rightarrow> matrix" where
  "diag v = mk_mat (length v) (length v) (\<lambda>i j. if i = j then v ! i else 0)"

definition diagonal_of :: "matrix \<Rightarrow> complex list" where
  "diagonal_of m = map (\<lambda>i. m ! i ! i) [0..<min (nrows m) (ncols m)]"

text \<open>\<open>int(np.log2(n))\<close>: the floor of the binary logarithm; \<open>np.log2(0)\<close> is \<open>-inf\<close>, which
  \<open>int\<close> refuses with \<open>OverflowError\<close>.\<close>

fun floor_log2 :: "nat \<Rightarrow> nat" where
  "floor_log2 n = (if n < 2 then 0 else Suc (floor_log2 (n div 2)))"

declare floor_log2.simps [simp del]

definition int_log2 :: "nat \<Rightarrow> error + nat" where
  "int_log2 n = (if n = 0 then Inl OverflowError else Inr (floor_log2 n))"

section \<open>Predicates\<close>

text \<open>
  Modelled from the spec: \<open>qickit.predicates\<close> is not part of the sources. The spec gives
  \<open>is_unitary(M, \<tau>)\<close> as: \<open>M\<close> is square, has a power-of-two side, and every entry of
  \<open>M \<cdot> M\<^sup>H - I\<close> has modulus at most \<open>\<tau>\<close>; and \<open>is_hermitian(M, \<tau>)\<close> as: every entry of
  \<open>M - M\<^sup>H\<close> has modulus at most \<open>\<tau>\<close>. The spec names both \<open>1e-8\<close> and \<open>1e-10\<close> as the
  default tolerance of the unitarity test, so the tolerance stays a parameter.
\<close>

definition is_unitary_matrix :: "real \<Rightarrow> matrix \<Rightarrow> bool" where
  "is_unitary_matrix tol m =
     (is_square m \<and> length m = 2 ^ floor_log2 (length m) \<and>
      list_all (\<lambda>i. list_all (\<lambda>j.
          cmod (mat_mul m (conj_transpose m) ! i ! j - (if i = j then 1 else 0)) \<le> tol)
        [0..<length m]) [0..<length m])"

definition is_hermitian_matrix :: "real \<Rightarrow> matrix \<Rightarrow> bool" where
  "is_hermitian_matrix tol m =
     (is_square m \<and>
      list_all (\<lambda>i. list_all (\<lambda>j. cmod (m ! i ! j - cnj (m ! j ! i)) \<le> tol)
        [0..<length m]) [0..<length m])"

section \<open>The \<open>Gate\<close> class\<close>

record gate_obj =
  name :: string
  matrix :: matrix
  num_qubits :: nat
  ordering :: string

text \<open>\<open>Gate.__init__\<close>\<close>

definition Gate :: "real \<Rightarrow> string \<Rightarrow> matrix \<Rightarrow> error + gate_obj" where
  "Gate tol nm m =
     (if \<not> is_unitary_matrix tol m then Inl ValueError
      else bind_r (int_log2 (length m)) (\<lambda>n.
             Inr \<lparr>name = nm, matrix = m, num_qubits = n, ordering = ''MSB''\<rparr>))"

text \<open>\<open>Gate.adjoint\<close>: the returned array, and the object after the call.\<close>

definition adjoint :: "gate_obj \<Rightarrow> matrix \<times> gate_obj" where
  "adjoint self = (conj_transpose (matrix self), self)"

text \<open>\<open>Gate.control\<close>; the argument is a Python \<open>int\<close>.\<close>

definition control :: "real \<Rightarrow> gate_obj \<Rightarrow> int \<Rightarrow> error + gate_obj" where
  "control tol self num_control_qubits =
     (if num_control_qubits < 1 then Inl ValueError
      else (let zero_projector = [[1, 0], [0, 0]];
                one_projector = [[0, 0], [0, 1]]
            in bind_r (mat_add (kron zero_projector (eye (2 ^ nat num_control_qubits)))
                               (kron one_projector (matrix self)))
                 (\<lambda>controlled_matrix. Gate tol (''C-'' @ name self) controlled_matrix)))"

text \<open>\<open>s.zfill(width)\<close> and \<open>int(s, 2)\<close> on strings of binary digits.\<close>

definition zfill :: "nat \<Rightarrow> string \<Rightarrow> string" where
  "zfill width s = replicate (width - length s) (CHR ''0'') @ s"

definition int_base2 :: "string \<Rightarrow> nat" where
  "int_base2 s = foldl (\<lambda>acc c. 2 * acc + (if c = CHR ''1'' then 1 else 0)) 0 s"

text \<open>\<open>int(bin(i)[2:].zfill(int(np.log2(size)))[::-1], 2)\<close>\<close>

definition reversed_index :: "nat \<Rightarrow> nat \<Rightarrow> nat" where
  "reversed_index sz i = int_base2 (rev (zfill (floor_log2 sz) (binary_repr i)))"

text \<open>\<open>reordered_matrix[new_i][new_j] = self.matrix[i][j]\<close>: both the read and the write
  raise \<open>IndexError\<close> out of range.\<close>

definition assign_entry :: "matrix \<Rightarrow> nat \<Rightarrow> nat \<Rightarrow> matrix \<Rightarrow> nat \<Rightarrow> nat \<Rightarrow> error + matrix" where
  "assign_entry reordered new_i new_j m i j =
     (if i < length m \<and> j < length (m ! i) \<and>
         new_i < length reordered \<and> new_j < length (reordered ! new_i)
      then Inr (reordered[new_i := (reordered ! new_i)[new_j := m ! i ! j]])
      else Inl IndexError)"

text \<open>The inner loop \<open>for j in range(size)\<close> and the outer loop \<open>for i in range(size)\<close>,
  over the indices still to visit.\<close>

fun change_mapping_row :: "matrix \<Rightarrow> nat \<Rightarrow> nat \<Rightarrow> nat list \<Rightarrow> matrix \<Rightarrow> error + matrix" where
  "change_mapping_row m sz i [] reordered = Inr reordered"
| "change_mapping_row m sz i (j # js) reordered =
     bind_r (assign_entry reordered (reversed_index sz i) (reversed_index sz j) m i j)
       (\<lambda>reordered'. change_mapping_row m sz i js reordered')"

fun change_mapping_rows :: "matrix \<Rightarrow> nat \<Rightarrow> nat list \<Rightarrow> matrix \<Rightarrow> error + matrix" where
  "change_mapping_rows m sz [] reordered = Inr reordered"
| "change_mapping_rows m sz (i # is) reordered =
     bind_r (change_mapping_row m sz i [0..<sz] reordered)
       (\<lambda>reordered'. change_mapping_rows m sz is reordered')"

text \<open>\<open>Gate.change_mapping\<close>. \<open>self.matrix[0][0]\<close> raises \<open>IndexError\<close> on an empty matrix.\<close>

definition change_mapping :: "gate_obj \<Rightarrow> string \<Rightarrow> error + gate_obj" where
  "change_mapping self ordering' =
     (if ordering' \<notin> {''MSB'', ''LSB''} then Inl ValueError
      else if ordering' = ordering self then Inr self
      else (let sz = length (matrix self)
            in if sz = 0 \<or> matrix self ! 0 = [] then Inl IndexError
               else bind_r (change_mapping_rows (matrix self) sz [0..<sz] (zeros sz sz))
                      (\<lambda>reordered_matrix.
                         Inr (self\<lparr>matrix := reordered_matrix, ordering := ordering'\<rparr>))))"

section \<open>One-qubit decomposition\<close>

text \<open>
  Modelled from the spec: the \<open>Operator\<close> wrapper of \<open>qickit.primitives\<close> is not part of
  the sources. The spec has it reject a matrix that is not unitary on construction; it
  exposes the matrix as \<open>data\<close> and the number of qubits, the binary logarithm of the side.
\<close>

record operator =
  data :: matrix
  op_num_qubits :: nat

definition Operator :: "real \<Rightarrow> matrix \<Rightarrow> error + operator" where
  "Operator tol m =
     (if is_unitary_matrix tol m
      then Inr \<lparr>data = m, op_num_qubits = floor_log2 (length m)\<rparr>
      else Inl ValueError)"

text \<open>\<open>np.angle\<close> is the principal argument in \<open>(-\<pi>, \<pi>]\<close>, with \<open>np.angle(0) = 0\<close>: the
  constant \<^const>\<open>Arg\<close>. \<open>math.atan2(y, x)\<close> is the argument of \<open>x + y\<i>\<close>.\<close>

definition atan2 :: "real \<Rightarrow> real \<Rightarrow> real" where
  "atan2 y x = Arg (Complex x y)"

text \<open>\<open>z ** (-0.5)\<close> on a complex scalar is the principal power
  \<open>exp (-0.5 * log z)\<close>, of modulus \<open>|z| ** (-0.5)\<close> and argument \<open>-arg z / 2\<close>.\<close>

definition cpow_neg_half :: "complex \<Rightarrow> complex" where
  "cpow_neg_half z = rcis (1 / sqrt (cmod z)) (- Arg z / 2)"

text \<open>\<open>np.linalg.det\<close> of the \<open>2 \<times> 2\<close> arrays that \<open>params_zyz\<close> is called with.\<close>

definition det2 :: "matrix \<Rightarrow> complex" where
  "det2 U = U ! 0 ! 0 * U ! 1 ! 1 - U ! 0 ! 1 * U ! 1 ! 0"

text \<open>\<open>v.round(10)\<close>: numpy rounds the real and the imaginary part to the given number of
  decimals, halves to the even neighbour.\<close>

definition rint :: "real \<Rightarrow> int" where
  "rint x =
     (let f = \<lfloor>x\<rfloor>; d = x - of_int f
      in if d < 1 / 2 then f else if d > 1 / 2 then f + 1 else if even f then f else f + 1)"

definition round_decimals :: "nat \<Rightarrow> real \<Rightarrow> real" where
  "round_decimals n x = of_int (rint (x * 10 ^ n)) / 10 ^ n"

definition round_complex :: "nat \<Rightarrow> complex \<Rightarrow> complex" where
  "round_complex n z = Complex (round_decimals n (Re z)) (round_decimals n (Im z))"

text \<open>\<open>OneQubitDecomposition.params_zyz\<close>, for a \<open>2 \<times> 2\<close> array \<open>U\<close>.\<close>

definition params_zyz :: "matrix \<Rightarrow> real \<times> (real \<times> real \<times> real)" where
  "params_zyz U =
     (let coe = cpow_neg_half (det2 U);
          alpha = - Arg coe;
          v = map (map (\<lambda>z. coe * z)) U;
          v = map (map (round_complex 10)) v;
          theta = 2 * atan2 (cmod (v ! 1 ! 0)) (cmod (v ! 0 ! 0));
          phi_lam_sum = 2 * Arg (v ! 1 ! 1);
          phi_lam_diff = 2 * Arg (v ! 1 ! 0);
          phi = (phi_lam_sum + phi_lam_diff) / 2;
          lam = (phi_lam_sum - phi_lam_diff) / 2
      in (alpha, (theta, phi, lam)))"

text \<open>The closed form as the specification words it: \<open>c = det(U)^(-1/2)\<close>,
  \<open>\<alpha> = -arg c\<close>, \<open>V = c \<cdot> U\<close>, \<open>\<theta> = 2 atan2(|V\<^sub>1\<^sub>0|, |V\<^sub>0\<^sub>0|)\<close>, \<open>s = 2 arg V\<^sub>1\<^sub>1\<close>,
  \<open>d = 2 arg V\<^sub>1\<^sub>0\<close>, \<open>\<phi> = (s + d)/2\<close>, \<open>\<lambda> = (s - d)/2\<close>, with no rounding of \<open>V\<close>.\<close>

definition params_zyz_spec :: "matrix \<Rightarrow> real \<times> (real \<times> real \<times> real)" where
  "params_zyz_spec U =
     (let c = cpow_neg_half (det2 U);
          alpha = - Arg c;
          V = map (map (\<lambda>z. c * z)) U;
          theta = 2 * atan2 (cmod (V ! 1 ! 0)) (cmod (V ! 0 ! 0));
          s = 2 * Arg (V ! 1 ! 1);
          d = 2 * Arg (V ! 1 ! 0);
          phi = (s + d) / 2;
          lam = (s - d) / 2
      in (alpha, (theta, phi, lam)))"

text \<open>The rotations of the docstring of \<open>params_zyz\<close>, \<open>U = e\<^sup>i\<^sup>\<alpha> R\<^sub>z(\<phi>) R\<^sub>y(\<theta>) R\<^sub>z(\<lambda>)\<close>.\<close>

definition rz :: "real \<Rightarrow> matrix" where
  "rz phi = [[cis (- phi / 2), 0], [0, cis (phi / 2)]]"

definition ry :: "real \<Rightarrow> matrix" where
  "ry theta =
     [[complex_of_real (cos (theta / 2)), - complex_of_real (sin (theta / 2))],
      [complex_of_real (sin (theta / 2)), complex_of_real (cos (theta / 2))]]"

definition zyz_matrix :: "real \<times> (real \<times> real \<times> real) \<Rightarrow> matrix" where
  "zyz_matrix p =
     (case p of (alpha, (theta, phi, lam)) \<Rightarrow>
        map (map (\<lambda>z. cis alpha * z)) (mat_mul (rz phi) (mat_mul (ry theta) (rz lam))))"

text \<open>\<open>OneQubitDecomposition.params_u3\<close>\<close>

definition params_u3 :: "matrix \<Rightarrow> real \<times> (real \<times> real \<times> real)" where
  "params_u3 U =
     (case params_zyz U of (alpha, (theta, phi, lam)) \<Rightarrow>
        (let phase = alpha - (phi + lam) / 2 in (phase, (theta, phi, lam))))"

datatype basis = Zyz | U3_basis

text \<open>\<open>OneQubitDecomposition.apply_unitary\<close>, given a list of qubit indices and an array.\<close>

definition one_qubit_apply_unitary ::
  "real \<Rightarrow> basis \<Rightarrow> circuit \<Rightarrow> matrix \<Rightarrow> int list \<Rightarrow> error + circuit" where
  "one_qubit_apply_unitary tol bas c unitary qubit_indices =
     (if length qubit_indices \<noteq> 1 then Inl ValueError
      else bind_r (Operator tol unitary) (\<lambda>unitary.
        if op_num_qubits unitary \<noteq> 1 then Inl ValueError
        else (case bas of
            Zyz \<Rightarrow>
              (case params_zyz (data unitary) of (alpha, (theta, phi, lamda)) \<Rightarrow>
                 Inr (append_gate (append_gate (append_gate (append_gate c
                        (RZ lamda (qubit_indices ! 0)))
                        (RY theta (qubit_indices ! 0)))
                        (RZ phi (qubit_indices ! 0)))
                        (GlobalPhase alpha)))
          | U3_basis \<Rightarrow>
              (case params_u3 (data unitary) of (phase, (theta, phi, lamda)) \<Rightarrow>
                 Inr (append_gate (append_gate c
                        (U3 theta phi lamda (qubit_indices ! 0)))
                        (GlobalPhase phase))))))"

section \<open>Shannon decomposition\<close>

text \<open>
  What the synthesis takes from outside the sources: the scipy routines \<open>cossin\<close>
  (with \<open>p = q = dim // 2\<close>, \<open>separate=True\<close>), \<open>eigh\<close> and \<open>schur\<close> (complex output),
  the \<open>TwoQubitDecomposition\<close> class, the circuit's \<open>get_unitary\<close>, numpy's
  \<open>assert_almost_equal\<close> and \<open>decompose_uc_rotations\<close>. Each may fail.
\<close>

record env =
  cossin :: "matrix \<Rightarrow> error + ((matrix \<times> matrix) \<times> real list \<times> (matrix \<times> matrix))"
  eigh :: "matrix \<Rightarrow> error + (real list \<times> matrix)"
  schur :: "matrix \<Rightarrow> error + (matrix \<times> matrix)"
  two_qubit_apply_unitary :: "circuit \<Rightarrow> matrix \<Rightarrow> int list \<Rightarrow> error + circuit"
  apply_unitary_up_to_diagonal :: "circuit \<Rightarrow> matrix \<Rightarrow> int list \<Rightarrow> error + (circuit \<times> matrix)"
  prepare_unitary :: "matrix \<Rightarrow> error + circuit"
  get_unitary :: "circuit \<Rightarrow> error + matrix"
  almost_equal :: "matrix \<Rightarrow> matrix \<Rightarrow> bool"
  decompose_uc_rotations :: "real list \<Rightarrow> real list"
  tolerance :: real

text \<open>\<open>xs[a:b]\<close> for non-negative \<open>a\<close> and \<open>b\<close>.\<close>

definition slice :: "'a list \<Rightarrow> nat \<Rightarrow> nat \<Rightarrow> 'a list" where
  "slice xs a b = take (b - a) (drop a xs)"

text \<open>The loop of \<open>apply_a2_optimization\<close> over adjacent pairs of leaf blocks, left to
  right: the rewritten second block of a pair is the first block of the next pair.\<close>

fun a2_fuse :: "env \<Rightarrow> gate list list \<Rightarrow> error + gate list list" where
  "a2_fuse E (block_1 # block_2 # rest) =
     bind_r (get_unitary E \<lparr>circuit_num_qubits = 2, circuit_log = block_1\<rparr>) (\<lambda>unitary_1.
     bind_r (get_unitary E \<lparr>circuit_num_qubits = 2, circuit_log = block_2\<rparr>) (\<lambda>unitary_2.
     bind_r (apply_unitary_up_to_diagonal E \<lparr>circuit_num_qubits = 2, circuit_log = []\<rparr>
               unitary_1 [0, 1]) (\<lambda>(circuit_1, diagonal).
     bind_r (matmul unitary_2 diagonal) (\<lambda>m.
     bind_r (prepare_unitary E m) (\<lambda>circuit_2.
     bind_r (a2_fuse E (circuit_log circuit_2 # rest)) (\<lambda>blocks.
       Inr (circuit_log circuit_1 # blocks)))))))"
| "a2_fuse E blocks = Inr blocks"

text \<open>\<open>apply_a2_optimization\<close>; \<open>unitary\<close> is the matrix given to the enclosing
  \<open>apply_unitary\<close>, and a block is a pair \<open>[start, end]\<close> of positions in the log.\<close>

definition apply_a2_optimization ::
  "env \<Rightarrow> matrix \<Rightarrow> circuit \<Rightarrow> (nat \<times> nat) list \<Rightarrow> error + circuit" where
  "apply_a2_optimization E unitary c a2_qsd_blocks =
     (if length a2_qsd_blocks < 2 then Inr c
      else (let clog = circuit_log c;
                circuit_blocks =
                  slice clog 0 (fst (hd a2_qsd_blocks)) #
                  map (\<lambda>(block, next_block). slice clog (snd block) (fst next_block))
                    (zip (butlast a2_qsd_blocks) (tl a2_qsd_blocks)) @
                  [drop (snd (last a2_qsd_blocks)) clog];
                qsd_blocks = map (\<lambda>block. slice clog (fst block) (snd block)) a2_qsd_blocks
            in bind_r (a2_fuse E qsd_blocks) (\<lambda>qsd_blocks.
                 (let c' = c\<lparr>circuit_log :=
                             hd circuit_blocks @
                             concat (map (\<lambda>(qsd_block, circuit_block). qsd_block @ circuit_block)
                                       (zip qsd_blocks (tl circuit_blocks)))\<rparr>
                  in bind_r (get_unitary E c') (\<lambda>u.
                       if almost_equal E u unitary then Inr c' else Inl AssertionError)))))"

text \<open>\<open>u2[:, half_size:] = np.negative(u2[:, half_size:])\<close>\<close>

definition negate_columns_from :: "nat \<Rightarrow> matrix \<Rightarrow> matrix" where
  "negate_columns_from half_size u2 = map (\<lambda>row. take half_size row @ map uminus (drop half_size row)) u2"

text \<open>The \<open>if is_hermitian_matrix(u): ... else: ...\<close> statement of \<open>demultiplexor\<close>:
  \<open>eigh\<close> gives real eigenvalues, \<open>schur\<close> the triangular factor whose diagonal is
  taken; the tolerance of the Hermitian test is the default \<open>1e-10\<close> of the spec.\<close>

definition eigen_decomposition :: "env \<Rightarrow> matrix \<Rightarrow> error + (complex list \<times> matrix)" where
  "eigen_decomposition E u =
     (if is_hermitian_matrix (1 / 10 ^ 10) u
      then bind_r (eigh E u) (\<lambda>(eigenvalues, eigenvectors).
             Inr (map complex_of_real eigenvalues, eigenvectors))
      else bind_r (schur E u) (\<lambda>(eigenvalues, eigenvectors).
             Inr (diagonal_of eigenvalues, eigenvectors)))"

text \<open>
  \<open>quantum_shannon_decomposition\<close> and \<open>demultiplexor\<close> call each other. The first
  argument after the environment is the matrix of the enclosing \<open>apply_unitary\<close>, the
  second the number of Python stack frames left (exceeding it is \<open>RecursionError\<close>);
  the state is the circuit together with the list \<open>a2_qsd_blocks\<close> the closures share.
\<close>

fun quantum_shannon_decomposition ::
    "env \<Rightarrow> matrix \<Rightarrow> nat \<Rightarrow> circuit \<times> (nat \<times> nat) list \<Rightarrow> int list \<Rightarrow> matrix \<Rightarrow> nat
     \<Rightarrow> error + (circuit \<times> (nat \<times> nat) list)"
  and demultiplexor ::
    "env \<Rightarrow> matrix \<Rightarrow> nat \<Rightarrow> circuit \<times> (nat \<times> nat) list \<Rightarrow> int list \<Rightarrow> matrix \<Rightarrow> matrix \<Rightarrow> nat
     \<Rightarrow> error + (circuit \<times> (nat \<times> nat) list)"
where
  "quantum_shannon_decomposition E top_unitary 0 st qubit_indices unitary recursion_depth =
     Inl RecursionError"
| "quantum_shannon_decomposition E top_unitary (Suc frames) st qubit_indices unitary recursion_depth =
     (let dim = length unitary
      in if dim = 2 then
           bind_r (one_qubit_apply_unitary (tolerance E) U3_basis (fst st) unitary qubit_indices)
             (\<lambda>c. Inr (c, snd st))
         else if dim = 4 then
           (let current_index = length (circuit_log (fst st))
            in bind_r (two_qubit_apply_unitary E (fst st) unitary qubit_indices) (\<lambda>c.
                 Inr (c, if recursion_depth > 0
                         then snd st @ [(current_index, length (circuit_log c))]
                         else snd st)))
         else
           bind_r (cossin E unitary) (\<lambda>((u1, u2), vtheta, (v1h, v2h)).
           bind_r (demultiplexor E top_unitary frames st qubit_indices v1h v2h recursion_depth) (\<lambda>st1.
           (let num_angles = length vtheta;
                half_size = num_angles div 2
            in bind_r (get_ucry_cz (decompose_uc_rotations E) (fst st1) qubit_indices
                         (map (\<lambda>t. 2 * t) vtheta)) (\<lambda>c2.
               (let u2 = negate_columns_from half_size u2
                in bind_r (demultiplexor E top_unitary frames (c2, snd st1) qubit_indices u1 u2
                             recursion_depth) (\<lambda>st3.
                   if recursion_depth = 0
                   then bind_r (apply_a2_optimization E top_unitary (fst st3) (snd st3))
                          (\<lambda>c. Inr (c, snd st3))
                   else Inr st3)))))))"
| "demultiplexor E top_unitary 0 st demux_qubits unitary_1 unitary_2 recursion_depth =
     Inl RecursionError"
| "demultiplexor E top_unitary (Suc frames) st demux_qubits unitary_1 unitary_2 recursion_depth =
     bind_r (matmul unitary_1 (conj_transpose unitary_2)) (\<lambda>u.
     bind_r (eigen_decomposition E u) (\<lambda>(eigenvalues, eigenvectors).
     (let eigenvalues_sqrt = map csqrt eigenvalues;
          diagonal = diag eigenvalues_sqrt
      in bind_r (matmul diagonal (conj_transpose eigenvectors)) (\<lambda>de.
         bind_r (matmul de unitary_2) (\<lambda>W.
         bind_r (quantum_shannon_decomposition E top_unitary frames st (butlast demux_qubits) W
                   (recursion_depth + 1)) (\<lambda>st1.
         (let angles = map (\<lambda>z. 2 * Arg (cnj z)) eigenvalues_sqrt
          in if demux_qubits = [] then Inl IndexError
             else quantum_shannon_decomposition E top_unitary frames
                    (append_gate (fst st1)
                       (UCRZ angles (butlast demux_qubits) (last demux_qubits)), snd st1)
                    (butlast demux_qubits) eigenvectors (recursion_depth + 1))))))))"

text \<open>\<open>ShannonDecomposition.apply_unitary\<close>, given an array and a list of qubit indices.\<close>

definition apply_unitary ::
  "env \<Rightarrow> nat \<Rightarrow> circuit \<Rightarrow> matrix \<Rightarrow> int list \<Rightarrow> error + circuit" where
  "apply_unitary E frames c unitary qubit_indices =
     bind_r (Operator (tolerance E) unitary) (\<lambda>unitary.
       if \<not> length qubit_indices = op_num_qubits unitary then Inl ValueError
       else bind_r (quantum_shannon_decomposition E (data unitary) frames (c, [])
                      qubit_indices (data unitary) 0) (\<lambda>st. Inr (fst st)))"

text \<open>An environment in which every outside routine fails: a call that succeeds under
  it has used none of them.\<close>

definition failing_env :: env where
  "failing_env =
     \<lparr>cossin = (\<lambda>_. Inl LinAlgError), eigh = (\<lambda>_. Inl LinAlgError),
      schur = (\<lambda>_. Inl LinAlgError), two_qubit_apply_unitary = (\<lambda>_ _ _. Inl LinAlgError),
      apply_unitary_up_to_diagonal = (\<lambda>_ _ _. Inl LinAlgError),
      prepare_unitary = (\<lambda>_. Inl LinAlgError), get_unitary = (\<lambda>_. Inl LinAlgError),
      almost_equal = (\<lambda>_ _. False), decompose_uc_rotations = (\<lambda>angles. angles),
      tolerance = 1 / 10 ^ 8\<rparr>"

text \<open>
  An environment for the identity of side eight, whose blocks stay diagonal all the way
  down: \<open>cossin\<close> answers on that matrix only, with identity factors and zero angles;
  \<open>eigh\<close> reads the eigenvalues of a real diagonal matrix off its diagonal, with the
  identity as eigenvectors; the two-qubit synthesis handles \<open>diag(1, 1, z, z)\<close>, with no
  gate for \<open>z = 1\<close> and otherwise \<open>RZ(arg z)\<close> on the second qubit and the global phase
  \<open>arg z / 2\<close>; the angle transform of the zero list is the zero list. The routines of
  the A.2 pass fail.
\<close>

definition diagonal_env :: env where
  "diagonal_env =
     \<lparr>cossin = (\<lambda>u. if u = eye 8
                     then Inr ((eye 4, eye 4), [0, 0, 0, 0], (eye 4, eye 4))
                     else Inl LinAlgError),
      eigh = (\<lambda>u. Inr (map Re (diagonal_of u), eye (length u))),
      schur = (\<lambda>_. Inl LinAlgError),
      two_qubit_apply_unitary =
        (\<lambda>c u q. Inr (if u ! 2 ! 2 = 1 then c
                       else append_gate (append_gate c (RZ (Arg (u ! 2 ! 2)) (q ! 1)))
                              (GlobalPhase (Arg (u ! 2 ! 2) / 2)))),
      apply_unitary_up_to_diagonal = (\<lambda>_ _ _. Inl LinAlgError),
      prepare_unitary = (\<lambda>_. Inl LinAlgError), get_unitary = (\<lambda>_. Inl LinAlgError),
      almost_equal = (\<lambda>_ _. False), decompose_uc_rotations = (\<lambda>angles. angles),
      tolerance = 1 / 10 ^ 8\<rparr>"

section \<open>Properties of \<open>get_ucry_cz\<close>\<close>


lemma upt2: "[0..<2] = [0, Suc 0]"
  by (simp add: upt_rec)

lemma rstrip0_snoc:
  "rstrip0 (s @ [c]) = (if c = CHR ''0'' then rstrip0 s else s @ [c])"
  by (simp add: rstrip0_def)

lemma binary_repr_trailing_zeros:
  "0 < n \<Longrightarrow> int (length (binary_repr n)) - int (length (rstrip0 (binary_repr n))) = int (trailing_zeros n)"
proof (induction n rule: binary_repr.induct)
  case (1 n)
  show ?case
  proof (cases "n < 2")
    case True
    with 1(2) have "n = 1" by simp
    then show ?thesis
      by (simp add: binary_repr.simps[of "Suc 0"] trailing_zeros.simps[of "Suc 0"] rstrip0_def bit_char_def)
  next
    case False
    then have pos: "0 < n div 2" by simp
    have br: "binary_repr n = binary_repr (n div 2) @ [bit_char (n mod 2)]"
      using False by (subst binary_repr.simps) simp
    show ?thesis
    proof (cases "even n")
      case True
      then have "bit_char (n mod 2) = CHR ''0''" by (simp add: bit_char_def)
      then have "rstrip0 (binary_repr n) = rstrip0 (binary_repr (n div 2))"
        by (simp add: br rstrip0_snoc)
      moreover have "trailing_zeros n = Suc (trailing_zeros (n div 2))"
        using True False by (subst trailing_zeros.simps) auto
      ultimately show ?thesis
        using 1(1)[OF False pos] by (simp add: br)
    next
      case odd: False
      then have "bit_char (n mod 2) = CHR ''1''" by (simp add: bit_char_def odd_iff_mod_2_eq_one)
      then have "rstrip0 (binary_repr n) = binary_repr n"
        by (simp add: br rstrip0_snoc)
      moreover have "trailing_zeros n = 0"
        using odd by (subst trailing_zeros.simps) auto
      ultimately show ?thesis by simp
    qed
  qed
qed

lemma trailing_zeros_less: "0 < n \<Longrightarrow> n < 2 ^ k \<Longrightarrow> trailing_zeros n < k"
proof (induction n arbitrary: k rule: trailing_zeros.induct)
  case (1 n)
  show ?case
  proof (cases "odd n")
    case True
    then have "trailing_zeros n = 0" by (subst trailing_zeros.simps) simp
    moreover have "0 < k" using 1(2,3) by (cases k) auto
    ultimately show ?thesis by simp
  next
    case False
    then obtain k' where k: "k = Suc k'" using 1(2,3) by (cases k) auto
    have "0 < n div 2" using False 1(2) by (auto elim!: evenE)
    moreover have "n div 2 < 2 ^ k'" using 1(3) k by auto
    ultimately have "trailing_zeros (n div 2) < k'"
      using 1(1)[of k'] False 1(2) by simp
    moreover have "trailing_zeros n = Suc (trailing_zeros (n div 2))"
      using False 1(2) by (subst trailing_zeros.simps) auto
    ultimately show ?thesis using k by simp
  qed
qed

lemma ucry_control_index_inner:
  "Suc i < n \<Longrightarrow> ucry_control_index n m i = int (trailing_zeros (Suc i))"
  using binary_repr_trailing_zeros[of "Suc i"]
  by (simp add: ucry_control_index_def Let_def)

lemma ucry_cz_loop_log:
  assumes "length control_indices = k" and "n = 2 ^ k" and "angles = pre @ rest" and "length pre = i"
    and "length angles = n"
  shows "ucry_cz_loop c control_indices target_index n n i rest =
           Inr (c\<lparr>circuit_log := circuit_log c @
                  concat (map (ucry_cz_step control_indices target_index n angles) [i..<n])\<rparr>)"
  using assms
proof (induction rest arbitrary: pre i c)
  case Nil
  then show ?case by simp
next
  case (Cons angle rest)
  have i_lt: "i < n" using Cons.prems by auto
  have nth_i: "angles ! i = angle" using Cons.prems by (simp add: nth_append)
  have upt: "[i..<n] = i # [Suc i..<n]" using i_lt by (simp add: upt_conv_Cons)
  have IH: "\<And>c'. ucry_cz_loop c' control_indices target_index n n (Suc i) rest =
           Inr (c'\<lparr>circuit_log := circuit_log c' @
                  concat (map (ucry_cz_step control_indices target_index n angles) [Suc i..<n])\<rparr>)"
    using Cons.IH[of "pre @ [angle]" "Suc i"] Cons.prems by simp
  have step_i: "ucry_cz_step control_indices target_index n angles i =
      (if \<bar>angle\<bar> > EPSILON then [RY angle target_index] else []) @
      (if Suc i < n then [CZ (control_indices ! trailing_zeros (Suc i)) target_index] else [])"
    using nth_i i_lt by (auto simp add: ucry_cz_step_def)
  show ?case
  proof (cases "Suc i < n")
    case True
    have tz: "trailing_zeros (Suc i) < k"
      using True Cons.prems(2) by (intro trailing_zeros_less) auto
    have ci: "\<And>m. ucry_control_index n m i = int (trailing_zeros (Suc i))"
      using True by (rule ucry_control_index_inner)
    show ?thesis
      using True tz Cons.prems(1) nth_i
      by (simp add: Let_def ci IH upt step_i append_gate_def)
  next
    case False
    then show ?thesis
      using nth_i i_lt
      by (simp add: Let_def IH upt step_i append_gate_def)
  qed
qed


lemma get_ucry_cz_log:
  assumes "1 \<le> k" and "length qubit_indices = Suc k"
    and "length angles = 2 ^ k" and "length (dec angles) = 2 ^ k"
  shows "get_ucry_cz dec c qubit_indices angles =
           Inr (c\<lparr>circuit_log := circuit_log c @
                  concat (map (ucry_cz_step (butlast qubit_indices) (last qubit_indices)
                                 (2 ^ k) (dec angles)) [0..<2 ^ k])\<rparr>)"
proof -
  have ne: "qubit_indices \<noteq> []" and ctrl: "butlast qubit_indices \<noteq> []"
    and len: "length (butlast qubit_indices) = k"
    using assms(1,2) by (auto simp: length_0_conv[symmetric] simp del: length_0_conv)
  have loop: "ucry_cz_loop c (butlast qubit_indices) (last qubit_indices) (2 ^ k) (2 ^ k) 0 (dec angles) =
           Inr (c\<lparr>circuit_log := circuit_log c @
                  concat (map (ucry_cz_step (butlast qubit_indices) (last qubit_indices)
                                 (2 ^ k) (dec angles)) [0..<2 ^ k])\<rparr>)"
    by (rule ucry_cz_loop_log[where k = k and pre = "[]" and angles = "dec angles"])
       (use len assms(4) in simp_all)
  have "get_ucry_cz dec c qubit_indices angles =
          ucry_cz_loop c (butlast qubit_indices) (last qubit_indices) (2 ^ k) (2 ^ k) 0 (dec angles)"
    using ne ctrl assms(3,4) by (simp add: get_ucry_cz_def Let_def)
  then show ?thesis using loop by simp
qed


text \<open>
  Claim C3, as the code has it. With \<open>k \<ge> 1\<close> controls and \<open>2 ^ k\<close> transformed angles
  \<open>\<theta>'\<close>, \<open>get_ucry_cz\<close> succeeds and appends, for \<open>i = 0, \<dots>, 2 ^ k - 1\<close> in this order:
  the rotation \<open>RY(\<theta>'\<^sub>i)\<close> on the target only when \<open>|\<theta>'\<^sub>i| > 1e-10\<close>, and then, when
  \<open>i < 2 ^ k - 1\<close>, a CZ on the target whose control is \<open>controls[c(i)]\<close> with \<open>c(i)\<close> the
  number of trailing zero bits of \<open>i + 1\<close> (the position of the least significant one bit
  of \<open>i + 1\<close>). For the last index the control index computed is \<open>k - 1\<close> and no CZ is
  appended.
\<close>

theorem get_ucry_cz_emission:
  assumes "1 \<le> k" and "length qubit_indices = Suc k"
    and "length angles = 2 ^ k" and "length (dec angles) = 2 ^ k"
  shows "get_ucry_cz dec c qubit_indices angles =
           Inr (c\<lparr>circuit_log := circuit_log c @
                  concat (map (ucry_cz_step (butlast qubit_indices) (last qubit_indices)
                                 (2 ^ k) (dec angles)) [0..<2 ^ k])\<rparr>)
         \<and> ucry_control_index (2 ^ k) k (2 ^ k - 1) = int k - 1"
proof -
  have "ucry_control_index (2 ^ k) k (2 ^ k - 1) = int k - 1"
    by (simp add: ucry_control_index_def)
  then show ?thesis
    using get_ucry_cz_log[of k qubit_indices angles dec c] assms by simp
qed

theorem get_ucry_cz_emission_witness:
  "(1::nat) \<le> 1 \<and> length [0, 1 :: int] = Suc 1 \<and> length [1 / 2, 1 / 2 :: real] = 2 ^ 1
   \<and> get_ucry_cz (\<lambda>a. [(a ! 0 + a ! 1) / 2, (a ! 0 - a ! 1) / 2])
         \<lparr>circuit_num_qubits = 2, circuit_log = []\<rparr> [0, 1] [1 / 2, 1 / 2]
       = Inr \<lparr>circuit_num_qubits = 2, circuit_log = [RY (1 / 2) 1, CZ 0 1]\<rparr>"
  using get_ucry_cz_emission [of 1 "[0, 1]" "[1 / 2, 1 / 2]"
      "\<lambda>a. [(a ! 0 + a ! 1) / 2, (a ! 0 - a ! 1) / 2]"
      "\<lparr>circuit_num_qubits = 2, circuit_log = []\<rparr>"]
  by (simp add: ucry_cz_step_def EPSILON_def trailing_zeros.simps[of "Suc 0"] upt2)

text \<open>
  Claim C3 as it is worded takes the control at the least significant zero bit of
  \<open>i + 1\<close>. With two controls \<open>[0, 1]\<close>, target \<open>2\<close> and four zero angles (which the
  angle transform, being linear, leaves zero) the code appends
  \<open>CZ(0, 2), CZ(1, 2), CZ(0, 2)\<close>, whereas the worded rule asks for control
  \<open>controls[1] = 1\<close> in the first step.
\<close>

theorem get_ucry_cz_control_counterexample:
  "get_ucry_cz (\<lambda>a. a) \<lparr>circuit_num_qubits = 3, circuit_log = []\<rparr> [0, 1, 2] [0, 0, 0, 0]
     = Inr \<lparr>circuit_num_qubits = 3, circuit_log = [CZ 0 2, CZ 1 2, CZ 0 2]\<rparr>
   \<and> ucry_cz_step_spec [0, 1] 2 4 [0, 0, 0, 0] 0 = [CZ 1 2]"
proof -
  have b1: "binary_repr (Suc 0) = ''1''"
    by (simp add: binary_repr.simps[of "Suc 0"] bit_char_def)
  have b2: "binary_repr (Suc (Suc 0)) = ''10''"
    by (simp add: binary_repr.simps[of "Suc (Suc 0)"] b1 bit_char_def)
  have b3: "binary_repr (Suc (Suc (Suc 0))) = ''11''"
    by (simp add: binary_repr.simps[of "Suc (Suc (Suc 0))"] b1 bit_char_def)
  have l1: "lowest_zero_bit (Suc 0) = 1"
    by (simp add: lowest_zero_bit.simps[of "Suc 0"] lowest_zero_bit.simps[of 0])
  show ?thesis
    by (simp add: get_ucry_cz_def ucry_control_index_def ucry_cz_step_spec_def rstrip0_def
        append_gate_def EPSILON_def Let_def b1 b2 b3 l1)
qed

section \<open>Properties of the \<open>Gate\<close> class\<close>

subsection \<open>Bit reversal of an index\<close>

lemma floor_log2_power: "floor_log2 (2 ^ n) = n"
proof (induction n)
  case 0
  then show ?case by (simp add: floor_log2.simps[of "Suc 0"])
next
  case (Suc n)
  have "\<not> (2::nat) ^ Suc n < 2" by simp
  then have "floor_log2 (2 ^ Suc n) = Suc (floor_log2 (2 ^ Suc n div 2))"
    by (subst floor_log2.simps) (simp del: power_Suc)
  then show ?case using Suc by simp
qed

lemma int_base2_snoc:
  "int_base2 (s @ [c]) = 2 * int_base2 s + (if c = CHR ''1'' then 1 else 0)"
  by (simp add: int_base2_def)

lemma int_base2_zeros: "int_base2 (replicate k (CHR ''0'')) = 0"
proof (induction k)
  case 0
  then show ?case by (simp add: int_base2_def)
next
  case (Suc k)
  have "replicate (Suc k) (CHR ''0'') = replicate k (CHR ''0'') @ [CHR ''0'']"
    by (simp add: replicate_append_same)
  then show ?case using Suc by (simp only: int_base2_snoc) simp
qed

lemma int_base2_append_zeros: "int_base2 (replicate k (CHR ''0'') @ s) = int_base2 s"
  using int_base2_zeros[of k] by (simp add: int_base2_def)

lemma int_base2_binary_repr: "int_base2 (binary_repr i) = i"
proof (induction i rule: binary_repr.induct)
  case (1 n)
  show ?case
  proof (cases "n < 2")
    case True
    then have "n = 0 \<or> n = 1" by auto
    then show ?thesis
      by (auto simp: binary_repr.simps[of 0] binary_repr.simps[of "Suc 0"] bit_char_def int_base2_def)
  next
    case False
    then have "binary_repr n = binary_repr (n div 2) @ [bit_char (n mod 2)]"
      by (subst binary_repr.simps) simp
    moreover have "2 * (n div 2) + (if bit_char (n mod 2) = CHR ''1'' then 1 else 0) = n"
      by (cases "n mod 2 = 0") (auto simp: bit_char_def, presburger+)
    ultimately show ?thesis using 1[OF False]
      by (simp add: int_base2_snoc)
  qed
qed

lemma int_base2_zfill: "int_base2 (zfill w (binary_repr i)) = i"
  by (simp add: zfill_def int_base2_append_zeros int_base2_binary_repr)

lemma int_base2_less: "int_base2 s < 2 ^ length s"
proof (induction s rule: rev_induct)
  case Nil
  then show ?case by (simp add: int_base2_def)
next
  case (snoc c s)
  then show ?case by (auto simp: int_base2_snoc)
qed

lemma length_binary_repr: "1 \<le> n \<Longrightarrow> i < 2 ^ n \<Longrightarrow> length (binary_repr i) \<le> n"
proof (induction i arbitrary: n rule: binary_repr.induct)
  case (1 i)
  show ?case
  proof (cases "i < 2")
    case True
    then show ?thesis using 1(2) by (subst binary_repr.simps) simp
  next
    case False
    then obtain n' where n: "n = Suc n'" and "1 \<le> n'"
      using 1(2,3) by (cases n; cases "n - 1") auto
    moreover have "i div 2 < 2 ^ n'" using 1(3) n by auto
    ultimately have "length (binary_repr (i div 2)) \<le> n'"
      using 1(1)[OF False, of n'] by simp
    then show ?thesis using False n by (subst binary_repr.simps) simp
  qed
qed

lemma length_zfill: "length s \<le> w \<Longrightarrow> length (zfill w s) = w"
  by (simp add: zfill_def)

lemma zfill_binary_repr_double:
  assumes "1 \<le> m" and "b < 2"
  shows "zfill (Suc m) (binary_repr (2 * v + b)) = zfill m (binary_repr v) @ [bit_char b]"
proof (cases "v = 0")
  case True
  have "binary_repr b = [bit_char b]" using assms(2) by (subst binary_repr.simps) simp
  moreover have "binary_repr 0 = [CHR ''0'']" by (subst binary_repr.simps) (simp add: bit_char_def)
  moreover have "replicate m (CHR ''0'') = replicate (m - 1) (CHR ''0'') @ [CHR ''0'']"
    using assms(1) by (cases m) (simp_all add: replicate_append_same)
  ultimately show ?thesis using True by (simp add: zfill_def)
next
  case False
  then have "\<not> 2 * v + b < 2" by simp
  moreover have "(2 * v + b) div 2 = v" "(2 * v + b) mod 2 = b" using assms(2) by auto
  ultimately have "binary_repr (2 * v + b) = binary_repr v @ [bit_char b]"
    by (subst binary_repr.simps) simp
  then show ?thesis by (simp add: zfill_def)
qed

lemma zfill_binary_repr_int_base2:
  assumes "set s \<subseteq> {CHR ''0'', CHR ''1''}" and "s \<noteq> []"
  shows "zfill (length s) (binary_repr (int_base2 s)) = s"
  using assms
proof (induction s rule: rev_induct)
  case Nil
  then show ?case by simp
next
  case (snoc c s)
  have c: "c = CHR ''0'' \<or> c = CHR ''1''" using snoc.prems by auto
  define b :: nat where "b = (if c = CHR ''1'' then 1 else 0)"
  have b: "b < 2" "bit_char b = c" using c by (auto simp: b_def bit_char_def)
  have v: "int_base2 (s @ [c]) = 2 * int_base2 s + b" by (simp add: int_base2_snoc b_def)
  show ?case
  proof (cases "s = []")
    case True
    have "binary_repr b = [bit_char b]" using b(1) by (subst binary_repr.simps) simp
    then show ?thesis using True b v by (simp add: zfill_def int_base2_def)
  next
    case False
    then have "1 \<le> length s" by (cases s) auto
    moreover have "zfill (length s) (binary_repr (int_base2 s)) = s"
      using snoc.IH False snoc.prems by auto
    ultimately show ?thesis
      using zfill_binary_repr_double[of "length s" b "int_base2 s"] b v by simp
  qed
qed

lemma set_binary_repr: "set (binary_repr i) \<subseteq> {CHR ''0'', CHR ''1''}"
proof (induction i rule: binary_repr.induct)
  case (1 n)
  show ?case
  proof (cases "n < 2")
    case True
    then show ?thesis by (subst binary_repr.simps) (simp add: bit_char_def)
  next
    case False
    then show ?thesis using 1[OF False] by (subst binary_repr.simps) (auto simp: bit_char_def)
  qed
qed

lemma set_zfill: "set s \<subseteq> {CHR ''0'', CHR ''1''} \<Longrightarrow> set (zfill w s) \<subseteq> {CHR ''0'', CHR ''1''}"
  by (auto simp: zfill_def)

lemma reversed_index_less:
  assumes "i < 2 ^ n"
  shows "reversed_index (2 ^ n) i < 2 ^ n"
proof (cases n)
  case 0
  then have "i = 0" using assms by simp
  moreover have "binary_repr 0 = [CHR ''0'']" by (subst binary_repr.simps) (simp add: bit_char_def)
  ultimately show ?thesis using 0
    by (simp add: reversed_index_def floor_log2.simps[of "Suc 0"] zfill_def int_base2_def)
next
  case (Suc n')
  have "length (zfill n (binary_repr i)) = n"
    using assms Suc by (intro length_zfill length_binary_repr) auto
  then show ?thesis
    using int_base2_less[of "rev (zfill n (binary_repr i))"]
    by (simp add: reversed_index_def floor_log2_power)
qed

lemma reversed_index_involution:
  assumes "i < 2 ^ n"
  shows "reversed_index (2 ^ n) (reversed_index (2 ^ n) i) = i"
proof (cases n)
  case 0
  then have "i = 0" using assms by simp
  moreover have "binary_repr 0 = [CHR ''0'']" by (subst binary_repr.simps) (simp add: bit_char_def)
  ultimately show ?thesis using 0
    by (simp add: reversed_index_def floor_log2.simps[of "Suc 0"] zfill_def int_base2_def)
next
  case (Suc n')
  define s where "s = zfill n (binary_repr i)"
  have len: "length s = n"
    unfolding s_def using assms Suc by (intro length_zfill length_binary_repr) auto
  have bits: "set (rev s) \<subseteq> {CHR ''0'', CHR ''1''}"
    unfolding s_def using set_zfill[OF set_binary_repr] by simp
  have ne: "rev s \<noteq> []" using len Suc by auto
  have "zfill n (binary_repr (int_base2 (rev s))) = rev s"
    using zfill_binary_repr_int_base2[OF bits ne] len by simp
  then have "reversed_index (2 ^ n) (int_base2 (rev s)) = int_base2 s"
    by (simp add: reversed_index_def floor_log2_power)
  moreover have "reversed_index (2 ^ n) i = int_base2 (rev s)"
    by (simp add: reversed_index_def floor_log2_power s_def)
  moreover have "int_base2 s = i" by (simp add: s_def int_base2_zfill)
  ultimately show ?thesis by simp
qed

subsection \<open>The loops of \<open>change_mapping\<close>\<close>

lemma length_mk_mat [simp]: "length (mk_mat r c f) = r"
  by (simp add: mk_mat_def)

lemma nth_mk_mat_row: "i < r \<Longrightarrow> mk_mat r c f ! i = map (f i) [0..<c]"
  by (simp add: mk_mat_def)

lemma nth_mk_mat [simp]: "i < r \<Longrightarrow> j < c \<Longrightarrow> mk_mat r c f ! i ! j = f i j"
  by (simp add: mk_mat_def)

lemma mk_mat_cong: "(\<And>i j. i < r \<Longrightarrow> j < c \<Longrightarrow> f i j = g i j) \<Longrightarrow> mk_mat r c f = mk_mat r c g"
  by (simp add: mk_mat_def)

lemma is_square_mk_mat [simp]: "is_square (mk_mat n n f)"
  by (simp add: is_square_def mk_mat_def list_all_iff)

lemma is_square_row: "is_square m \<Longrightarrow> i < length m \<Longrightarrow> length (m ! i) = length m"
  by (simp add: is_square_def list_all_length)

lemma mk_mat_nth: "is_square m \<Longrightarrow> mk_mat (length m) (length m) (\<lambda>i j. m ! i ! j) = m"
  by (rule nth_equalityI) (auto simp: nth_mk_mat_row is_square_row intro!: nth_equalityI)

lemma nrows_mk_mat [simp]: "nrows (mk_mat r c f) = r"
  by (simp add: nrows_def)

lemma ncols_mk_mat: "0 < r \<Longrightarrow> ncols (mk_mat r c f) = c"
  by (cases r) (simp_all add: ncols_def mk_mat_def upt_conv_Cons del: upt_Suc)

lemma ncols_square: "is_square m \<Longrightarrow> ncols m = length m"
  by (cases m) (simp_all add: ncols_def is_square_def)

lemma assign_entry_square:
  assumes "is_square R" "length R = sz" "is_square m" "length m = sz"
    and "i < sz" "j < sz" "ni < sz" "nj < sz"
  shows "assign_entry R ni nj m i j =
           Inr (mk_mat sz sz (\<lambda>a b. if a = ni \<and> b = nj then m ! i ! j else R ! a ! b))"
proof -
  have rows: "\<And>a. a < sz \<Longrightarrow> length (R ! a) = sz" "\<And>a. a < sz \<Longrightarrow> length (m ! a) = sz"
    using assms(1-4) by (auto simp: is_square_row)
  have "R[ni := (R ! ni)[nj := m ! i ! j]] =
        mk_mat sz sz (\<lambda>a b. if a = ni \<and> b = nj then m ! i ! j else R ! a ! b)"
    using assms(2,7,8) rows
    by (intro nth_equalityI) (auto simp: nth_mk_mat_row nth_list_update)
  then show ?thesis using assms rows by (simp add: assign_entry_def)
qed

lemma change_mapping_row_square:
  assumes "is_square m" "length m = 2 ^ n" "i < 2 ^ n" "set js \<subseteq> {..<2 ^ n}"
    and "is_square R" "length R = 2 ^ n"
  shows "change_mapping_row m (2 ^ n) i js R =
           Inr (mk_mat (2 ^ n) (2 ^ n)
                  (\<lambda>a b. if a = reversed_index (2 ^ n) i \<and> reversed_index (2 ^ n) b \<in> set js
                         then m ! i ! reversed_index (2 ^ n) b else R ! a ! b))"
  using assms(4-6)
proof (induction js arbitrary: R)
  case Nil
  then show ?case using mk_mat_nth[of R] by simp
next
  case (Cons j js)
  let ?r = "reversed_index (2 ^ n)"
  let ?R1 = "mk_mat (2 ^ n) (2 ^ n) (\<lambda>a b. if a = ?r i \<and> b = ?r j then m ! i ! j else R ! a ! b)"
  have j: "j < 2 ^ n" using Cons.prems by simp
  have step: "assign_entry R (?r i) (?r j) m i j = Inr ?R1"
    using assms(1-3) j Cons.prems
    by (intro assign_entry_square) (auto intro: reversed_index_less)
  have IH: "change_mapping_row m (2 ^ n) i js ?R1 =
      Inr (mk_mat (2 ^ n) (2 ^ n)
            (\<lambda>a b. if a = ?r i \<and> ?r b \<in> set js then m ! i ! ?r b else ?R1 ! a ! b))"
    using Cons.prems by (intro Cons.IH) auto
  have eq: "mk_mat (2 ^ n) (2 ^ n)
            (\<lambda>a b. if a = ?r i \<and> ?r b \<in> set js then m ! i ! ?r b else ?R1 ! a ! b) =
        mk_mat (2 ^ n) (2 ^ n)
            (\<lambda>a b. if a = ?r i \<and> ?r b \<in> set (j # js) then m ! i ! ?r b else R ! a ! b)"
  proof (rule mk_mat_cong)
    fix a b assume ab: "a < (2::nat) ^ n" "b < (2::nat) ^ n"
    have "b = ?r j \<longleftrightarrow> ?r b = j"
      using reversed_index_involution[OF j] reversed_index_involution[OF ab(2)] by auto
    then show "(if a = ?r i \<and> ?r b \<in> set js then m ! i ! ?r b else ?R1 ! a ! b) =
        (if a = ?r i \<and> ?r b \<in> set (j # js) then m ! i ! ?r b else R ! a ! b)"
      using ab by auto
  qed
  show ?case by (simp add: step bind_r_def IH eq)
qed

lemma change_mapping_rows_square:
  assumes "is_square m" "length m = 2 ^ n" "set is \<subseteq> {..<2 ^ n}"
    and "is_square R" "length R = 2 ^ n"
  shows "change_mapping_rows m (2 ^ n) is R =
           Inr (mk_mat (2 ^ n) (2 ^ n)
                  (\<lambda>a b. if reversed_index (2 ^ n) a \<in> set is
                         then m ! reversed_index (2 ^ n) a ! reversed_index (2 ^ n) b
                         else R ! a ! b))"
  using assms(3-5)
proof (induction "is" arbitrary: R)
  case Nil
  then show ?case using mk_mat_nth[of R] by simp
next
  case (Cons i "is")
  let ?r = "reversed_index (2 ^ n)"
  let ?R1 = "mk_mat (2 ^ n) (2 ^ n)
     (\<lambda>a b. if a = ?r i \<and> ?r b \<in> set [0..<2 ^ n] then m ! i ! ?r b else R ! a ! b)"
  have i: "i < 2 ^ n" using Cons.prems by simp
  have step: "change_mapping_row m (2 ^ n) i [0..<2 ^ n] R = Inr ?R1"
    using assms(1,2) i Cons.prems by (intro change_mapping_row_square) auto
  have IH: "change_mapping_rows m (2 ^ n) is ?R1 =
      Inr (mk_mat (2 ^ n) (2 ^ n)
            (\<lambda>a b. if ?r a \<in> set is then m ! ?r a ! ?r b else ?R1 ! a ! b))"
    using Cons.prems by (intro Cons.IH) auto
  have eq: "mk_mat (2 ^ n) (2 ^ n)
            (\<lambda>a b. if ?r a \<in> set is then m ! ?r a ! ?r b else ?R1 ! a ! b) =
        mk_mat (2 ^ n) (2 ^ n)
            (\<lambda>a b. if ?r a \<in> set (i # is) then m ! ?r a ! ?r b else R ! a ! b)"
  proof (rule mk_mat_cong)
    fix a b assume ab: "a < (2::nat) ^ n" "b < (2::nat) ^ n"
    have "a = ?r i \<longleftrightarrow> ?r a = i"
      using reversed_index_involution[OF i] reversed_index_involution[OF ab(1)] by auto
    moreover have "?r b < 2 ^ n" using ab(2) by (rule reversed_index_less)
    ultimately show "(if ?r a \<in> set is then m ! ?r a ! ?r b else ?R1 ! a ! b) =
        (if ?r a \<in> set (i # is) then m ! ?r a ! ?r b else R ! a ! b)"
      using ab by auto
  qed
  show ?case by (simp only: change_mapping_rows.simps step bind_r_def sum.case IH eq)
qed

text \<open>The matrix with rows and columns permuted by bit reversal.\<close>

lemma change_mapping_rows_all:
  assumes "is_square m" "length m = 2 ^ n"
  shows "change_mapping_rows m (2 ^ n) [0..<2 ^ n] (zeros (2 ^ n) (2 ^ n)) =
           Inr (mk_mat (2 ^ n) (2 ^ n)
                  (\<lambda>a b. m ! reversed_index (2 ^ n) a ! reversed_index (2 ^ n) b))"
proof -
  have "change_mapping_rows m (2 ^ n) [0..<2 ^ n] (zeros (2 ^ n) (2 ^ n)) =
           Inr (mk_mat (2 ^ n) (2 ^ n)
                  (\<lambda>a b. if reversed_index (2 ^ n) a \<in> set [0..<2 ^ n]
                         then m ! reversed_index (2 ^ n) a ! reversed_index (2 ^ n) b
                         else zeros (2 ^ n) (2 ^ n) ! a ! b))"
    using assms by (intro change_mapping_rows_square) (auto simp: zeros_def)
  also have "mk_mat (2 ^ n) (2 ^ n)
                  (\<lambda>a b. if reversed_index (2 ^ n) a \<in> set [0..<2 ^ n]
                         then m ! reversed_index (2 ^ n) a ! reversed_index (2 ^ n) b
                         else zeros (2 ^ n) (2 ^ n) ! a ! b) =
         mk_mat (2 ^ n) (2 ^ n)
                  (\<lambda>a b. m ! reversed_index (2 ^ n) a ! reversed_index (2 ^ n) b)"
    by (rule mk_mat_cong) (simp add: reversed_index_less)
  finally show ?thesis .
qed

subsection \<open>Unitarity within tolerance\<close>

lemma sum_list_upt: "sum_list (map f [0..<n]) = (\<Sum>k<n. f k)"
  by (simp add: interv_sum_list_conv_sum_set_nat atLeast0LessThan)

lemma gram_entry:
  assumes "is_square m" "i < length m" "j < length m"
  shows "mat_mul m (conj_transpose m) ! i ! j = (\<Sum>k<length m. m ! i ! k * cnj (m ! j ! k))"
proof -
  have pos: "0 < length m" using assms(2) by (cases m) simp_all
  have nc: "ncols m = length m" using assms(1) by (rule ncols_square)
  have ct: "conj_transpose m = mk_mat (length m) (length m) (\<lambda>a b. cnj (m ! b ! a))"
    by (simp add: conj_transpose_def nc nrows_def)
  have "mat_mul m (conj_transpose m) ! i ! j =
        sum_list (map (\<lambda>k. m ! i ! k * conj_transpose m ! k ! j) [0..<length m])"
    using assms(2,3) pos by (simp add: mat_mul_def nrows_def nc ct ncols_mk_mat)
  also have "\<dots> = (\<Sum>k<length m. m ! i ! k * conj_transpose m ! k ! j)"
    by (rule sum_list_upt)
  also have "\<dots> = (\<Sum>k<length m. m ! i ! k * cnj (m ! j ! k))"
    using assms(3) by (intro sum.cong) (simp_all add: ct)
  finally show ?thesis .
qed

lemma is_unitary_matrix_iff:
  "is_unitary_matrix tol m \<longleftrightarrow>
     is_square m \<and> length m = 2 ^ floor_log2 (length m) \<and>
     (\<forall>i<length m. \<forall>j<length m.
        cmod ((\<Sum>k<length m. m ! i ! k * cnj (m ! j ! k)) - (if i = j then 1 else 0)) \<le> tol)"
proof (cases "is_square m")
  case True
  have G: "\<And>i j. i < length m \<Longrightarrow> j < length m \<Longrightarrow>
      mat_mul m (conj_transpose m) ! i ! j = (\<Sum>k<length m. m ! i ! k * cnj (m ! j ! k))"
    using True by (rule gram_entry)
  have "list_all (\<lambda>i. list_all (\<lambda>j.
          cmod (mat_mul m (conj_transpose m) ! i ! j - (if i = j then 1 else 0)) \<le> tol)
        [0..<length m]) [0..<length m] \<longleftrightarrow>
      (\<forall>i<length m. \<forall>j<length m.
        cmod ((\<Sum>k<length m. m ! i ! k * cnj (m ! j ! k)) - (if i = j then 1 else 0)) \<le> tol)"
    unfolding list_all_iff set_upt by (intro iffI allI impI ballI; simp add: G)
  then show ?thesis using True unfolding is_unitary_matrix_def by blast
next
  case False
  then show ?thesis by (simp add: is_unitary_matrix_def)
qed

lemma is_unitary_bit_reversed:
  assumes "is_unitary_matrix tol m" and N: "length m = 2 ^ n"
  shows "is_unitary_matrix tol
           (mk_mat (2 ^ n) (2 ^ n) (\<lambda>a b. m ! reversed_index (2 ^ n) a ! reversed_index (2 ^ n) b))"
proof -
  define N where "N = (2::nat) ^ n"
  define r where "r = reversed_index N"
  define P where "P = mk_mat N N (\<lambda>a b. m ! r a ! r b)"
  have lenm: "length m = N" using assms(2) by (simp add: N_def)
  have "\<forall>i<length m. \<forall>j<length m.
        cmod ((\<Sum>k<length m. m ! i ! k * cnj (m ! j ! k)) - (if i = j then 1 else 0)) \<le> tol"
    using assms(1) unfolding is_unitary_matrix_iff by blast
  then have ent: "\<And>i j. i < N \<Longrightarrow> j < N \<Longrightarrow>
        cmod ((\<Sum>k<N. m ! i ! k * cnj (m ! j ! k)) - (if i = j then 1 else 0)) \<le> tol"
    unfolding lenm by blast
  have r_lt: "\<And>a. a < N \<Longrightarrow> r a < N"
    unfolding r_def N_def by (rule reversed_index_less)
  have r_inv: "\<And>a. a < N \<Longrightarrow> r (r a) = a"
    unfolding r_def N_def by (rule reversed_index_involution)
  have lenP: "length P = N" by (simp add: P_def)
  have Pij: "\<And>a b. a < N \<Longrightarrow> b < N \<Longrightarrow> P ! a ! b = m ! r a ! r b"
    by (simp add: P_def)
  have entP: "cmod ((\<Sum>k<N. P ! i ! k * cnj (P ! j ! k)) - (if i = j then 1 else 0)) \<le> tol"
    if ij: "i < N" "j < N" for i j
  proof -
    have "(\<Sum>k<N. P ! i ! k * cnj (P ! j ! k)) = (\<Sum>k<N. m ! r i ! r k * cnj (m ! r j ! r k))"
      using ij by (intro sum.cong) (simp_all add: Pij)
    also have "\<dots> = (\<Sum>k<N. m ! r i ! k * cnj (m ! r j ! k))"
      by (rule sum.reindex_bij_witness[of _ r r]) (auto simp: r_lt r_inv)
    finally have s: "(\<Sum>k<N. P ! i ! k * cnj (P ! j ! k)) = (\<Sum>k<N. m ! r i ! k * cnj (m ! r j ! k))" .
    have d: "(if i = j then 1 else 0) = (if r i = r j then 1 else (0::complex))"
      using r_inv[OF ij(1)] r_inv[OF ij(2)] by (cases "i = j") auto
    show ?thesis using ent[OF r_lt[OF ij(1)] r_lt[OF ij(2)]] unfolding s d .
  qed
  have sqP: "is_square P" by (simp add: P_def)
  have pwP: "length P = 2 ^ floor_log2 (length P)"
    unfolding lenP by (simp add: N_def floor_log2_power)
  have "is_unitary_matrix tol P"
    unfolding is_unitary_matrix_iff using sqP pwP entP unfolding lenP by blast
  then show ?thesis by (simp add: P_def r_def N_def)
qed

lemma is_unitary_matrix_pow2:
  "is_unitary_matrix tol m \<Longrightarrow> is_square m \<and> length m = 2 ^ floor_log2 (length m)"
  unfolding is_unitary_matrix_def by blast

lemma change_mapping_flip:
  assumes "is_unitary_matrix tol (matrix g)" and "ordering g \<noteq> ord" and "ord \<in> {''MSB'', ''LSB''}"
    and "n = floor_log2 (length (matrix g))"
  shows "change_mapping g ord =
           Inr (g\<lparr>matrix := mk_mat (2 ^ n) (2 ^ n)
                     (\<lambda>a b. matrix g ! reversed_index (2 ^ n) a ! reversed_index (2 ^ n) b),
                  ordering := ord\<rparr>)"
proof -
  have sq: "is_square (matrix g)" and len: "length (matrix g) = 2 ^ n"
    using is_unitary_matrix_pow2[OF assms(1)] unfolding assms(4) by blast+
  have "length (matrix g ! 0) = 2 ^ n" using sq len by (simp add: is_square_row)
  then have ne: "matrix g ! 0 \<noteq> []" by auto
  have pos: "(2::nat) ^ n \<noteq> 0" by simp
  have neq: "ord \<noteq> ordering g" using assms(2) by blast
  show ?thesis
    unfolding change_mapping_def Let_def len
    using neq assms(3) ne pos
    by (simp only: change_mapping_rows_all[OF sq len] bind_r_def sum.case if_False simp_thms if_True)
qed

lemma mk_mat_bit_reversed_twice:
  assumes "is_square m" "length m = 2 ^ n"
  shows "mk_mat (2 ^ n) (2 ^ n)
           (\<lambda>a b. mk_mat (2 ^ n) (2 ^ n)
                     (\<lambda>a b. m ! reversed_index (2 ^ n) a ! reversed_index (2 ^ n) b)
                   ! reversed_index (2 ^ n) a ! reversed_index (2 ^ n) b) = m"
proof -
  have "mk_mat (2 ^ n) (2 ^ n)
           (\<lambda>a b. mk_mat (2 ^ n) (2 ^ n)
                     (\<lambda>a b. m ! reversed_index (2 ^ n) a ! reversed_index (2 ^ n) b)
                   ! reversed_index (2 ^ n) a ! reversed_index (2 ^ n) b) =
        mk_mat (2 ^ n) (2 ^ n) (\<lambda>a b. m ! a ! b)"
    by (rule mk_mat_cong) (simp add: reversed_index_less reversed_index_involution)
  then show ?thesis using mk_mat_nth[OF assms(1)] assms(2) by simp
qed

text \<open>
  Claim C9, for a gate in the ordering \<open>"MSB"\<close>, the one every constructed gate starts
  in. The gate holds a matrix that passed the unitarity test. Then
  \<open>change_mapping("LSB")\<close> succeeds and switches the ordering, and
  \<open>change_mapping("MSB")\<close> after it succeeds and gives back the very same object: the
  matrix is entry for entry the original one and the ordering is \<open>"MSB"\<close> again.
\<close>

theorem change_mapping_round_trip:
  assumes "is_unitary_matrix tol (matrix g)" and "ordering g = ''MSB''"
  shows "\<exists>g1. change_mapping g ''LSB'' = Inr g1 \<and> ordering g1 = ''LSB''
           \<and> change_mapping g1 ''MSB'' = Inr g"
proof -
  define n where "n = floor_log2 (length (matrix g))"
  define P where "P = mk_mat (2 ^ n) (2 ^ n)
      (\<lambda>a b. matrix g ! reversed_index (2 ^ n) a ! reversed_index (2 ^ n) b)"
  define g1 where "g1 = g\<lparr>matrix := P, ordering := ''LSB''\<rparr>"
  have sq: "is_square (matrix g)" and len: "length (matrix g) = 2 ^ n"
    using is_unitary_matrix_pow2[OF assms(1)] unfolding n_def by blast+
  have s1: "change_mapping g ''LSB'' = Inr g1"
    unfolding g1_def P_def
    by (rule change_mapping_flip[OF assms(1) _ _ n_def]) (simp_all add: assms(2))
  have uP: "is_unitary_matrix tol (matrix g1)"
    using is_unitary_bit_reversed[OF assms(1) len] by (simp add: g1_def P_def)
  have n1: "n = floor_log2 (length (matrix g1))"
    by (simp add: g1_def P_def floor_log2_power)
  have "change_mapping g1 ''MSB'' =
      Inr (g1\<lparr>matrix := mk_mat (2 ^ n) (2 ^ n)
                     (\<lambda>a b. matrix g1 ! reversed_index (2 ^ n) a ! reversed_index (2 ^ n) b),
                  ordering := ''MSB''\<rparr>)"
    by (rule change_mapping_flip[OF uP _ _ n1]) (simp_all add: g1_def)
  also have "mk_mat (2 ^ n) (2 ^ n)
                     (\<lambda>a b. matrix g1 ! reversed_index (2 ^ n) a ! reversed_index (2 ^ n) b) = matrix g"
    using mk_mat_bit_reversed_twice[OF sq len] by (simp add: g1_def P_def)
  finally have "change_mapping g1 ''MSB'' = Inr g"
    using assms(2) by (simp add: g1_def)
  then show ?thesis using s1 by (auto simp: g1_def)
qed

lemma Gate_unitary:
  assumes "is_unitary_matrix tol m"
  shows "Gate tol nm m =
           Inr \<lparr>name = nm, matrix = m, num_qubits = floor_log2 (length m), ordering = ''MSB''\<rparr>"
proof -
  have "length m = 2 ^ floor_log2 (length m)"
    using is_unitary_matrix_pow2[OF assms] by blast
  then have "length m \<noteq> 0" by (metis power_not_zero zero_neq_numeral)
  then show ?thesis using assms by (simp add: Gate_def int_log2_def bind_r_def)
qed

lemma Gate_not_unitary: "\<not> is_unitary_matrix tol m \<Longrightarrow> Gate tol nm m = Inl ValueError"
  by (simp add: Gate_def)

lemma Gate_result_unitary: "Gate tol nm m = Inr g \<Longrightarrow> is_unitary_matrix tol (matrix g) \<and> matrix g = m"
  by (cases "is_unitary_matrix tol m") (auto simp: Gate_unitary Gate_not_unitary)

lemma control_result_unitary: "control tol g k = Inr g' \<Longrightarrow> is_unitary_matrix tol (matrix g')"
  by (auto simp: control_def bind_r_def Let_def split: if_splits sum.splits
           dest: Gate_result_unitary)

lemma change_mapping_result_unitary:
  assumes "is_unitary_matrix tol (matrix g)" and "change_mapping g ord = Inr g'"
  shows "is_unitary_matrix tol (matrix g')"
proof (cases "ord \<in> {''MSB'', ''LSB''}")
  case False
  then show ?thesis using assms(2) by (simp add: change_mapping_def)
next
  case valid: True
  show ?thesis
  proof (cases "ord = ordering g")
    case True
    then have "change_mapping g ord = Inr g" using valid by (simp add: change_mapping_def)
    then show ?thesis using assms by simp
  next
    case False
    define n where "n = floor_log2 (length (matrix g))"
    have len: "length (matrix g) = 2 ^ n"
      using is_unitary_matrix_pow2[OF assms(1)] unfolding n_def by blast
    have "change_mapping g ord =
           Inr (g\<lparr>matrix := mk_mat (2 ^ n) (2 ^ n)
                     (\<lambda>a b. matrix g ! reversed_index (2 ^ n) a ! reversed_index (2 ^ n) b),
                  ordering := ord\<rparr>)"
      using False valid by (intro change_mapping_flip[OF assms(1) _ _ n_def]) auto
    then have "matrix g' = mk_mat (2 ^ n) (2 ^ n)
                     (\<lambda>a b. matrix g ! reversed_index (2 ^ n) a ! reversed_index (2 ^ n) b)"
      using assms(2) by auto
    then show ?thesis using is_unitary_bit_reversed[OF assms(1) len] by simp
  qed
qed

lemma change_mapping_succeeds:
  assumes "is_unitary_matrix tol (matrix g)" and "ord \<in> {''MSB'', ''LSB''}"
  shows "\<exists>g'. change_mapping g ord = Inr g'"
proof (cases "ord = ordering g")
  case True
  then show ?thesis using assms(2) by (simp add: change_mapping_def)
next
  case False
  then show ?thesis
    using change_mapping_flip[OF assms(1) _ assms(2) refl, of ] by auto
qed

text \<open>
  Claim C10. The constructor raises \<open>ValueError\<close> exactly when the matrix fails the
  unitarity test and otherwise succeeds and stores the matrix, so every gate holds a
  matrix that passes the test. The operations keep it so: \<open>adjoint\<close> leaves the object
  as it is, any gate returned by \<open>control\<close> went through the constructor, and
  \<open>change_mapping\<close>, which succeeds for both orderings, returns a gate whose
  matrix (bit-reversed in rows and columns, or untouched) passes the test again.
\<close>

theorem gate_unitary_invariant:
  "(Gate tol nm m = Inl ValueError \<longleftrightarrow> \<not> is_unitary_matrix tol m)
   \<and> (is_unitary_matrix tol m \<longrightarrow>
        Gate tol nm m = Inr \<lparr>name = nm, matrix = m, num_qubits = floor_log2 (length m),
                              ordering = ''MSB''\<rparr>)
   \<and> (is_unitary_matrix tol (matrix g) \<longrightarrow>
        snd (adjoint g) = g
        \<and> (\<forall>k g'. control tol g k = Inr g' \<longrightarrow> is_unitary_matrix tol (matrix g'))
        \<and> (\<forall>ord g'. change_mapping g ord = Inr g' \<longrightarrow> is_unitary_matrix tol (matrix g'))
        \<and> (\<forall>ord \<in> {''MSB'', ''LSB''}. \<exists>g'. change_mapping g ord = Inr g'))"
proof (intro conjI impI allI ballI)
  show "Gate tol nm m = Inl ValueError \<longleftrightarrow> \<not> is_unitary_matrix tol m"
    by (cases "is_unitary_matrix tol m") (simp_all add: Gate_unitary Gate_not_unitary)
next
  assume "is_unitary_matrix tol m"
  then show "Gate tol nm m = Inr \<lparr>name = nm, matrix = m, num_qubits = floor_log2 (length m),
                              ordering = ''MSB''\<rparr>"
    by (rule Gate_unitary)
next
  show "snd (adjoint g) = g" by (simp add: adjoint_def)
next
  fix k g' assume "control tol g k = Inr g'"
  then show "is_unitary_matrix tol (matrix g')" by (rule control_result_unitary)
next
  fix ord g' assume "is_unitary_matrix tol (matrix g)" "change_mapping g ord = Inr g'"
  then show "is_unitary_matrix tol (matrix g')" by (rule change_mapping_result_unitary)
next
  fix ord assume "is_unitary_matrix tol (matrix g)" "ord \<in> {''MSB'', ''LSB''}"
  then show "\<exists>g'. change_mapping g ord = Inr g'" by (rule change_mapping_succeeds)
qed

lemma upt4: "[0..<4] = [0, 1, 2, 3]"
  by (simp add: upt_rec)

lemma floor_log2_2: "floor_log2 (Suc (Suc 0)) = Suc 0"
  using floor_log2_power[of 1] by (simp add: numeral_2_eq_2)

lemma floor_log2_4: "floor_log2 (Suc (Suc (Suc (Suc 0)))) = 2"
proof -
  have "Suc (Suc (Suc (Suc 0))) = 2 ^ 2" by simp
  then show ?thesis using floor_log2_power[of 2] by (simp only:)
qed

lemma is_unitary_X: "is_unitary_matrix (1 / 10 ^ 8) [[0, 1], [1, 0]]"
  by (simp add: is_unitary_matrix_def is_square_def mat_mul_def conj_transpose_def mk_mat_def
      nrows_def ncols_def upt2 floor_log2_2)

lemma is_unitary_CX:
  "is_unitary_matrix (1 / 10 ^ 8) [[1, 0, 0, 0], [0, 1, 0, 0], [0, 0, 0, 1], [0, 0, 1, 0]]"
  by (simp add: is_unitary_matrix_def is_square_def mat_mul_def conj_transpose_def mk_mat_def
      nrows_def ncols_def upt4 floor_log2_4)

theorem change_mapping_round_trip_witness:
  "is_unitary_matrix (1 / 10 ^ 8) [[1, 0, 0, 0], [0, 1, 0, 0], [0, 0, 0, 1], [0, 0, 1, 0]]
   \<and> (\<exists>g1. change_mapping
              \<lparr>name = ''CX'', matrix = [[1, 0, 0, 0], [0, 1, 0, 0], [0, 0, 0, 1], [0, 0, 1, 0]],
               num_qubits = 2, ordering = ''MSB''\<rparr> ''LSB'' = Inr g1
           \<and> ordering g1 = ''LSB''
           \<and> change_mapping g1 ''MSB'' =
               Inr \<lparr>name = ''CX'', matrix = [[1, 0, 0, 0], [0, 1, 0, 0], [0, 0, 0, 1], [0, 0, 1, 0]],
                    num_qubits = 2, ordering = ''MSB''\<rparr>)"
  using change_mapping_round_trip [of "1 / 10 ^ 8"
      "\<lparr>name = ''CX'', matrix = [[1, 0, 0, 0], [0, 1, 0, 0], [0, 0, 0, 1], [0, 0, 1, 0]],
        num_qubits = 2, ordering = ''MSB''\<rparr>"] is_unitary_CX
  by simp

lemma binary_repr_0: "binary_repr 0 = ''0''"
  by (simp add: binary_repr.simps[of 0] bit_char_def)

lemma binary_repr_1: "binary_repr (Suc 0) = ''1''"
  by (simp add: binary_repr.simps[of "Suc 0"] bit_char_def)

lemma binary_repr_2: "binary_repr (Suc (Suc 0)) = ''10''"
  by (simp add: binary_repr.simps[of "Suc (Suc 0)"] binary_repr_1 bit_char_def)

lemma binary_repr_3: "binary_repr (Suc (Suc (Suc 0))) = ''11''"
  by (simp add: binary_repr.simps[of "Suc (Suc (Suc 0))"] binary_repr_1 bit_char_def)

lemma floor_log2_4_numeral: "floor_log2 4 = 2"
  using floor_log2_power[of 2] by simp

lemma reversed_index_4:
  "reversed_index 4 0 = 0" "reversed_index 4 (Suc 0) = 2"
  "reversed_index 4 (Suc (Suc 0)) = 1" "reversed_index 4 (Suc (Suc (Suc 0))) = 3"
  by (simp_all add: reversed_index_def floor_log2_4_numeral zfill_def int_base2_def
      binary_repr_0 binary_repr_1 binary_repr_2 binary_repr_3 numeral_2_eq_2)

lemma bit_reversed_CX:
  "mk_mat (2 ^ 2) (2 ^ 2)
     (\<lambda>a b. [[1, 0, 0, 0], [0, 1, 0, 0], [0, 0, 0, 1], [0, 0, 1, 0 :: complex]]
               ! reversed_index (2 ^ 2) a ! reversed_index (2 ^ 2) b) =
   [[1, 0, 0, 0], [0, 0, 0, 1], [0, 0, 1, 0], [0, 1, 0, 0]]"
proof -
  have u: "[0..<2 ^ 2] = [0, Suc 0, Suc (Suc 0), Suc (Suc (Suc 0))]"
    by (simp add: upt_rec)
  show ?thesis unfolding mk_mat_def u by (simp add: reversed_index_4)
qed

lemma bit_reversed_CX_back:
  "mk_mat (2 ^ 2) (2 ^ 2)
     (\<lambda>a b. [[1, 0, 0, 0], [0, 0, 0, 1], [0, 0, 1, 0], [0, 1, 0, 0 :: complex]]
               ! reversed_index (2 ^ 2) a ! reversed_index (2 ^ 2) b) =
   [[1, 0, 0, 0], [0, 1, 0, 0], [0, 0, 0, 1], [0, 0, 1, 0]]"
proof -
  have u: "[0..<2 ^ 2] = [0, Suc 0, Suc (Suc 0), Suc (Suc (Suc 0))]"
    by (simp add: upt_rec)
  show ?thesis unfolding mk_mat_def u by (simp add: reversed_index_4)
qed

lemma is_unitary_CX_reversed:
  "is_unitary_matrix (1 / 10 ^ 8) [[1, 0, 0, 0], [0, 0, 0, 1], [0, 0, 1, 0], [0, 1, 0, 0]]"
  by (simp add: is_unitary_matrix_def is_square_def mat_mul_def conj_transpose_def mk_mat_def
      nrows_def ncols_def upt4 floor_log2_4)

text \<open>
  Claim C9 as it is worded speaks of every gate. A gate that is in the ordering
  \<open>"LSB"\<close> is one: \<open>Gate("CX", \<dots>).change_mapping("LSB")\<close> leaves the object with the
  bit-reversed matrix and the ordering \<open>"LSB"\<close>. On it \<open>change_mapping("LSB")\<close> returns
  at once, and \<open>change_mapping("MSB")\<close> after it permutes once: the ordering is
  \<open>"MSB"\<close>, but the matrix is not the one the two calls started from.
\<close>

theorem change_mapping_lsb_start_counterexample:
  "Gate (1 / 10 ^ 8) ''CX'' [[1, 0, 0, 0], [0, 1, 0, 0], [0, 0, 0, 1], [0, 0, 1, 0]] =
     Inr \<lparr>name = ''CX'', matrix = [[1, 0, 0, 0], [0, 1, 0, 0], [0, 0, 0, 1], [0, 0, 1, 0]],
          num_qubits = 2, ordering = ''MSB''\<rparr>
   \<and> change_mapping
        \<lparr>name = ''CX'', matrix = [[1, 0, 0, 0], [0, 1, 0, 0], [0, 0, 0, 1], [0, 0, 1, 0]],
         num_qubits = 2, ordering = ''MSB''\<rparr> ''LSB'' =
     Inr \<lparr>name = ''CX'', matrix = [[1, 0, 0, 0], [0, 0, 0, 1], [0, 0, 1, 0], [0, 1, 0, 0]],
          num_qubits = 2, ordering = ''LSB''\<rparr>
   \<and> change_mapping
        \<lparr>name = ''CX'', matrix = [[1, 0, 0, 0], [0, 0, 0, 1], [0, 0, 1, 0], [0, 1, 0, 0]],
         num_qubits = 2, ordering = ''LSB''\<rparr> ''LSB'' =
     Inr \<lparr>name = ''CX'', matrix = [[1, 0, 0, 0], [0, 0, 0, 1], [0, 0, 1, 0], [0, 1, 0, 0]],
          num_qubits = 2, ordering = ''LSB''\<rparr>
   \<and> change_mapping
        \<lparr>name = ''CX'', matrix = [[1, 0, 0, 0], [0, 0, 0, 1], [0, 0, 1, 0], [0, 1, 0, 0]],
         num_qubits = 2, ordering = ''LSB''\<rparr> ''MSB'' =
     Inr \<lparr>name = ''CX'', matrix = [[1, 0, 0, 0], [0, 1, 0, 0], [0, 0, 0, 1], [0, 0, 1, 0]],
          num_qubits = 2, ordering = ''MSB''\<rparr>
   \<and> [[1, 0, 0, 0], [0, 1, 0, 0], [0, 0, 0, 1], [0, 0, 1, 0 :: complex]] \<noteq>
       [[1, 0, 0, 0], [0, 0, 0, 1], [0, 0, 1, 0], [0, 1, 0, 0]]"
proof -
  define M :: matrix where "M = [[1, 0, 0, 0], [0, 1, 0, 0], [0, 0, 0, 1], [0, 0, 1, 0]]"
  define P :: matrix where "P = [[1, 0, 0, 0], [0, 0, 0, 1], [0, 0, 1, 0], [0, 1, 0, 0]]"
  define g0 where "g0 = \<lparr>name = ''CX'', matrix = M, num_qubits = 2, ordering = ''MSB''\<rparr>"
  define g1 where "g1 = \<lparr>name = ''CX'', matrix = P, num_qubits = 2, ordering = ''LSB''\<rparr>"
  have uM: "is_unitary_matrix (1 / 10 ^ 8) M" unfolding M_def by (rule is_unitary_CX)
  have fl: "floor_log2 (length M) = 2" by (simp add: M_def floor_log2_4)
  have G: "Gate (1 / 10 ^ 8) ''CX'' M = Inr g0"
    using Gate_unitary[OF uM, of "''CX''"] by (simp add: g0_def fl)
  have u0: "is_unitary_matrix (1 / 10 ^ 8) (matrix g0)" using uM by (simp add: g0_def)
  have n0: "2 = floor_log2 (length (matrix g0))" by (simp add: g0_def fl)
  have s1: "change_mapping g0 ''LSB'' = Inr g1"
  proof -
    have "change_mapping g0 ''LSB'' =
        Inr (g0\<lparr>matrix := mk_mat (2 ^ 2) (2 ^ 2)
                     (\<lambda>a b. matrix g0 ! reversed_index (2 ^ 2) a ! reversed_index (2 ^ 2) b),
                  ordering := ''LSB''\<rparr>)"
      by (rule change_mapping_flip[OF u0 _ _ n0]) (simp_all add: g0_def)
    then show ?thesis using bit_reversed_CX by (simp add: g0_def g1_def M_def P_def)
  qed
  have s2: "change_mapping g1 ''LSB'' = Inr g1"
    by (simp add: change_mapping_def g1_def)
  have uP: "is_unitary_matrix (1 / 10 ^ 8) P" unfolding P_def by (rule is_unitary_CX_reversed)
  have u1: "is_unitary_matrix (1 / 10 ^ 8) (matrix g1)" using uP by (simp add: g1_def)
  have n1: "2 = floor_log2 (length (matrix g1))" by (simp add: g1_def P_def floor_log2_4)
  have s3: "change_mapping g1 ''MSB'' = Inr g0"
  proof -
    have "change_mapping g1 ''MSB'' =
        Inr (g1\<lparr>matrix := mk_mat (2 ^ 2) (2 ^ 2)
                     (\<lambda>a b. matrix g1 ! reversed_index (2 ^ 2) a ! reversed_index (2 ^ 2) b),
                  ordering := ''MSB''\<rparr>)"
      by (rule change_mapping_flip[OF u1 _ _ n1]) (simp_all add: g1_def)
    then show ?thesis using bit_reversed_CX_back by (simp add: g0_def g1_def M_def P_def)
  qed
  have ne: "M \<noteq> P" by (simp add: M_def P_def)
  show ?thesis using G s1 s2 s3 ne unfolding g0_def g1_def M_def P_def by blast
qed

theorem gate_unitary_invariant_witness:
  "is_unitary_matrix (1 / 10 ^ 8) [[0, 1], [1, 0]]
   \<and> \<not> is_unitary_matrix (1 / 10 ^ 8) [[1, 1], [1, 1]]
   \<and> Gate (1 / 10 ^ 8) ''X'' [[0, 1], [1, 0]] =
       Inr \<lparr>name = ''X'', matrix = [[0, 1], [1, 0]], num_qubits = 1, ordering = ''MSB''\<rparr>
   \<and> (\<exists>g'. change_mapping
             \<lparr>name = ''X'', matrix = [[0, 1], [1, 0]], num_qubits = 1, ordering = ''MSB''\<rparr> ''LSB''
             = Inr g' \<and> is_unitary_matrix (1 / 10 ^ 8) (matrix g'))"
proof -
  have n: "\<not> is_unitary_matrix (1 / 10 ^ 8) [[1, 1], [1, 1]]"
    by (simp add: is_unitary_matrix_def is_square_def mat_mul_def conj_transpose_def mk_mat_def
      nrows_def ncols_def upt2 floor_log2_2)
  show ?thesis
    using gate_unitary_invariant [of "1 / 10 ^ 8" "''X''" "[[0, 1], [1, 0]]"
      "\<lparr>name = ''X'', matrix = [[0, 1], [1, 0]], num_qubits = 1, ordering = ''MSB''\<rparr>"]
      is_unitary_X n
    by (auto simp: floor_log2_2)
qed


subsection \<open>\<open>control\<close> with as many controls as the gate has qubits\<close>

text \<open>The block-diagonal matrix \<open>diag(I, U)\<close> with blocks of side \<open>N\<close>.\<close>

lemma kron_projectors_sum:
  assumes sq: "is_square m" and len: "length m = N" and N: "0 < N"
  shows "mat_add (kron [[1, 0], [0, 0]] (eye N)) (kron [[0, 0], [0, 1]] m) =
           Inr (mk_mat (2 * N) (2 * N)
                  (\<lambda>i j. if i < N then (if i = j then 1 else 0)
                         else if j < N then 0 else m ! (i - N) ! (j - N)))"
proof -
  have nm: "nrows m = N" "ncols m = N"
    using sq len by (simp_all add: nrows_def ncols_square)
  have ne: "nrows (eye N) = N" "ncols (eye N) = N"
    using N by (simp_all add: eye_def ncols_mk_mat)
  have p: "nrows [[1, 0], [0, 0 :: complex]] = 2" "ncols [[1, 0], [0, 0 :: complex]] = 2"
    "nrows [[0, 0], [0, 1 :: complex]] = 2" "ncols [[0, 0], [0, 1 :: complex]] = 2"
    by (simp_all add: nrows_def ncols_def)
  define A where "A = kron [[1, 0], [0, 0]] (eye N)"
  define B where "B = kron [[0, 0], [0, 1]] m"
  have A: "A = mk_mat (2 * N) (2 * N)
      (\<lambda>i j. [[1, 0], [0, 0]] ! (i div N) ! (j div N) * eye N ! (i mod N) ! (j mod N))"
    by (simp add: A_def kron_def p ne)
  have B: "B = mk_mat (2 * N) (2 * N)
      (\<lambda>i j. [[0, 0], [0, 1]] ! (i div N) ! (j div N) * m ! (i mod N) ! (j mod N))"
    by (simp add: B_def kron_def p nm)
  have shA: "nrows A = 2 * N" "ncols A = 2 * N" using N by (simp_all add: A ncols_mk_mat)
  have shB: "nrows B = 2 * N" "ncols B = 2 * N" using N by (simp_all add: B ncols_mk_mat)
  have n1: "2 * N \<noteq> 1" by simp
  have "mat_add A B = Inr (mk_mat (2 * N) (2 * N) (\<lambda>i j. A ! i ! j + B ! i ! j))"
    by (simp add: mat_add_def shA shB Let_def)
  also have "mk_mat (2 * N) (2 * N) (\<lambda>i j. A ! i ! j + B ! i ! j) =
      mk_mat (2 * N) (2 * N)
                  (\<lambda>i j. if i < N then (if i = j then 1 else 0)
                         else if j < N then 0 else m ! (i - N) ! (j - N))"
  proof (rule mk_mat_cong)
    fix i j assume ij: "i < 2 * N" "j < 2 * N"
    have di: "i div N = (if i < N then 0 else 1)" "i mod N = (if i < N then i else i - N)"
      using ij(1) N by (auto simp: div_nat_eqI mod_if le_mod_geq)
    have dj: "j div N = (if j < N then 0 else 1)" "j mod N = (if j < N then j else j - N)"
      using ij(2) N by (auto simp: div_nat_eqI mod_if le_mod_geq)
    have e: "\<And>x y. x < N \<Longrightarrow> y < N \<Longrightarrow> eye N ! x ! y = (if x = y then 1 else 0)"
      by (simp add: eye_def)
    have lt: "i mod N < N" "j mod N < N" using N by simp_all
    show "A ! i ! j + B ! i ! j =
        (if i < N then (if i = j then 1 else 0) else if j < N then 0 else m ! (i - N) ! (j - N))"
      using ij lt by (auto simp: A B di dj e)
  qed
  finally show ?thesis unfolding A_def B_def .
qed

lemma sum_split_blocks:
  fixes f :: "nat \<Rightarrow> complex"
  shows "(\<Sum>k<2 * N. f k) = (\<Sum>k<N. f k) + (\<Sum>k<N. f (k + N))"
proof -
  have "{..<2 * N} = {..<N} \<union> {N..<2 * N}" by auto
  moreover have "{..<N} \<inter> {N..<2 * N} = {}" by auto
  ultimately have "(\<Sum>k<2 * N. f k) = (\<Sum>k<N. f k) + (\<Sum>k\<in>{N..<2 * N}. f k)"
    by (simp add: sum.union_disjoint)
  moreover have "(\<Sum>k\<in>{N..<2 * N}. f k) = (\<Sum>k<N. f (k + N))"
    by (rule sum.reindex_bij_witness[of _ "\<lambda>k. k + N" "\<lambda>k. k - N"]) auto
  ultimately show ?thesis by simp
qed

lemma is_unitary_block_diagonal:
  assumes u: "is_unitary_matrix tol m" and len: "length m = 2 ^ n"
  shows "is_unitary_matrix tol
           (mk_mat (2 * 2 ^ n) (2 * 2 ^ n)
              (\<lambda>i j. if i < 2 ^ n then (if i = j then 1 else 0)
                     else if j < 2 ^ n then 0 else m ! (i - 2 ^ n) ! (j - 2 ^ n)))"
proof -
  define N where "N = (2::nat) ^ n"
  define C where "C = mk_mat (2 * N) (2 * N)
              (\<lambda>i j. if i < N then (if i = j then 1 else 0)
                     else if j < N then 0 else m ! (i - N) ! (j - N))"
  have Npos: "0 < N" by (simp add: N_def)
  have lenm: "length m = N" using len by (simp add: N_def)
  have "\<forall>i<length m. \<forall>j<length m.
        cmod ((\<Sum>k<length m. m ! i ! k * cnj (m ! j ! k)) - (if i = j then 1 else 0)) \<le> tol"
    using u unfolding is_unitary_matrix_iff by blast
  then have ent: "\<And>i j. i < N \<Longrightarrow> j < N \<Longrightarrow>
        cmod ((\<Sum>k<N. m ! i ! k * cnj (m ! j ! k)) - (if i = j then 1 else 0)) \<le> tol"
    unfolding lenm by blast
  have tol: "0 \<le> tol"
    using ent[OF Npos Npos] norm_ge_zero order_trans by blast
  have lenC: "length C = 2 * N" by (simp add: C_def)
  have Cij: "\<And>i j. i < 2 * N \<Longrightarrow> j < 2 * N \<Longrightarrow>
      C ! i ! j = (if i < N then (if i = j then 1 else 0)
                   else if j < N then 0 else m ! (i - N) ! (j - N))"
    by (simp add: C_def)
  have entC: "cmod ((\<Sum>k<2 * N. C ! i ! k * cnj (C ! j ! k)) - (if i = j then 1 else 0)) \<le> tol"
    if ij: "i < 2 * N" "j < 2 * N" for i j
  proof (cases "i < N")
    case True
    have "(\<Sum>k<2 * N. C ! i ! k * cnj (C ! j ! k)) =
          (\<Sum>k<2 * N. if k = i then cnj (C ! j ! i) else 0)"
      using ij True by (intro sum.cong) (auto simp: Cij)
    also have "\<dots> = cnj (C ! j ! i)" using ij by simp
    also have "\<dots> = (if i = j then 1 else 0)" using ij True by (auto simp: Cij)
    finally show ?thesis using tol by simp
  next
    case False
    then have iN: "i - N < N" using ij by simp
    have low: "(\<Sum>k<N. C ! i ! k * cnj (C ! j ! k)) = 0"
      using ij False by (intro sum.neutral) (simp add: Cij)
    show ?thesis
    proof (cases "j < N")
      case True
      have "(\<Sum>k<N. C ! i ! (k + N) * cnj (C ! j ! (k + N))) = 0"
        using ij True by (intro sum.neutral) (simp add: Cij)
      then have "(\<Sum>k<2 * N. C ! i ! k * cnj (C ! j ! k)) = 0"
        using low by (simp add: sum_split_blocks)
      moreover have "i \<noteq> j" using True False by auto
      ultimately show ?thesis using tol by simp
    next
      case jN: False
      then have jN': "j - N < N" using ij by simp
      have "(\<Sum>k<N. C ! i ! (k + N) * cnj (C ! j ! (k + N))) =
            (\<Sum>k<N. m ! (i - N) ! k * cnj (m ! (j - N) ! k))"
        using ij False jN by (intro sum.cong) (simp_all add: Cij)
      then have s: "(\<Sum>k<2 * N. C ! i ! k * cnj (C ! j ! k)) =
            (\<Sum>k<N. m ! (i - N) ! k * cnj (m ! (j - N) ! k))"
        using low by (simp add: sum_split_blocks)
      have d: "(if i = j then 1 else 0) = (if i - N = j - N then 1 else (0::complex))"
        using False jN by auto
      show ?thesis using ent[OF iN jN'] unfolding s d .
    qed
  qed
  have sqC: "is_square C" by (simp add: C_def)
  have "2 * N = 2 ^ Suc n" by (simp add: N_def)
  then have pwC: "length C = 2 ^ floor_log2 (length C)"
    unfolding lenC by (simp only: floor_log2_power)
  have "is_unitary_matrix tol C"
    unfolding is_unitary_matrix_iff using sqC pwC entC unfolding lenC by blast
  then show ?thesis unfolding C_def N_def .
qed

lemma control_same_width:
  assumes u: "is_unitary_matrix tol (matrix g)"
    and nq: "num_qubits g = floor_log2 (length (matrix g))" and k: "1 \<le> num_qubits g"
  shows "control tol g (int (num_qubits g)) =
           Inr \<lparr>name = ''C-'' @ name g,
                matrix = mk_mat (2 * 2 ^ num_qubits g) (2 * 2 ^ num_qubits g)
                  (\<lambda>i j. if i < 2 ^ num_qubits g then (if i = j then 1 else 0)
                         else if j < 2 ^ num_qubits g then 0
                         else matrix g ! (i - 2 ^ num_qubits g) ! (j - 2 ^ num_qubits g)),
                num_qubits = Suc (num_qubits g), ordering = ''MSB''\<rparr>"
    and "is_unitary_matrix tol
           (mk_mat (2 * 2 ^ num_qubits g) (2 * 2 ^ num_qubits g)
                  (\<lambda>i j. if i < 2 ^ num_qubits g then (if i = j then 1 else 0)
                         else if j < 2 ^ num_qubits g then 0
                         else matrix g ! (i - 2 ^ num_qubits g) ! (j - 2 ^ num_qubits g)))"
proof -
  define n where "n = num_qubits g"
  define C where "C = mk_mat (2 * 2 ^ n) (2 * 2 ^ n)
                  (\<lambda>i j. if i < 2 ^ n then (if i = j then 1 else 0)
                         else if j < 2 ^ n then 0
                         else matrix g ! (i - 2 ^ n) ! (j - 2 ^ n))"
  have sq: "is_square (matrix g)" and len: "length (matrix g) = 2 ^ n"
    using is_unitary_matrix_pow2[OF u] unfolding n_def nq by blast+
  have uC: "is_unitary_matrix tol C"
    unfolding C_def by (rule is_unitary_block_diagonal[OF u len])
  have sum: "mat_add (kron [[1, 0], [0, 0]] (eye (2 ^ n))) (kron [[0, 0], [0, 1]] (matrix g)) = Inr C"
    unfolding C_def by (rule kron_projectors_sum[OF sq len]) simp
  have lenC: "length C = 2 ^ Suc n" by (simp add: C_def)
  have "floor_log2 (length C) = Suc n" unfolding lenC by (rule floor_log2_power)
  then have G: "Gate tol (''C-'' @ name g) C =
      Inr \<lparr>name = ''C-'' @ name g, matrix = C, num_qubits = Suc n, ordering = ''MSB''\<rparr>"
    using Gate_unitary[OF uC, of "''C-'' @ name g"] by simp
  have kk: "\<not> int n < 1" using k by (simp add: n_def)
  have "control tol g (int n) =
      Inr \<lparr>name = ''C-'' @ name g, matrix = C, num_qubits = Suc n, ordering = ''MSB''\<rparr>"
    using kk G by (simp add: control_def Let_def sum bind_r_def)
  then show "control tol g (int (num_qubits g)) =
           Inr \<lparr>name = ''C-'' @ name g,
                matrix = mk_mat (2 * 2 ^ num_qubits g) (2 * 2 ^ num_qubits g)
                  (\<lambda>i j. if i < 2 ^ num_qubits g then (if i = j then 1 else 0)
                         else if j < 2 ^ num_qubits g then 0
                         else matrix g ! (i - 2 ^ num_qubits g) ! (j - 2 ^ num_qubits g)),
                num_qubits = Suc (num_qubits g), ordering = ''MSB''\<rparr>"
    unfolding C_def n_def .
  show "is_unitary_matrix tol
           (mk_mat (2 * 2 ^ num_qubits g) (2 * 2 ^ num_qubits g)
                  (\<lambda>i j. if i < 2 ^ num_qubits g then (if i = j then 1 else 0)
                         else if j < 2 ^ num_qubits g then 0
                         else matrix g ! (i - 2 ^ num_qubits g) ! (j - 2 ^ num_qubits g)))"
    using uC unfolding C_def n_def .
qed

text \<open>
  Claim C2 at the Pauli X gate with two control qubits. The two Kronecker products have
  shapes \<open>8 \<times> 8\<close> and \<open>4 \<times> 4\<close>; their sum raises \<open>ValueError\<close>, so no controlled
  gate is returned. (With as many controls as the gate has qubits the shapes agree, see
  \<open>control_same_width\<close>.)
\<close>

theorem control_width_mismatch:
  "Gate (1 / 10 ^ 8) ''X'' [[0, 1], [1, 0]] =
       Inr \<lparr>name = ''X'', matrix = [[0, 1], [1, 0]], num_qubits = 1, ordering = ''MSB''\<rparr>
   \<and> control (1 / 10 ^ 8)
        \<lparr>name = ''X'', matrix = [[0, 1], [1, 0]], num_qubits = 1, ordering = ''MSB''\<rparr> 2
       = Inl ValueError"
proof -
  have "control (1 / 10 ^ 8)
        \<lparr>name = ''X'', matrix = [[0, 1], [1, 0]], num_qubits = 1, ordering = ''MSB''\<rparr> 2
       = Inl ValueError"
    by (simp add: control_def mat_add_def kron_def eye_def ncols_mk_mat Let_def bind_r_def
        nrows_def ncols_def)
  then show ?thesis using Gate_unitary[OF is_unitary_X, of "''X''"] by (simp add: floor_log2_2)
qed

section \<open>Properties of the synthesis\<close>

text \<open>
  Claim C8. Called with fewer than two recorded leaf blocks, \<open>apply_a2_optimization\<close>
  returns at once: the result is the circuit it was given, log and all.
\<close>

theorem apply_a2_optimization_few_blocks:
  "length a2_qsd_blocks < 2 \<Longrightarrow> apply_a2_optimization E unitary c a2_qsd_blocks = Inr c"
  by (simp add: apply_a2_optimization_def)

theorem apply_a2_optimization_few_blocks_witness:
  "length [(0 :: nat, 3 :: nat)] < 2
   \<and> apply_a2_optimization failing_env [[1]]
         \<lparr>circuit_num_qubits = 3, circuit_log = [CZ 0 1, RY 1 2, CX 0 1]\<rparr> [(0, 3)]
       = Inr \<lparr>circuit_num_qubits = 3, circuit_log = [CZ 0 1, RY 1 2, CX 0 1]\<rparr>"
  using apply_a2_optimization_few_blocks [of "[(0, 3)]" failing_env "[[1]]"
      "\<lparr>circuit_num_qubits = 3, circuit_log = [CZ 0 1, RY 1 2, CX 0 1]\<rparr>"]
  by simp

lemma Arg_1: "Arg 1 = 0"
  by (rule cis_Arg_unique) simp_all

lemma eye_2: "eye 2 = [[1, 0], [0, 1]]"
  by (simp add: eye_def mk_mat_def upt2)

lemma rint_of_int: "rint (of_int k) = k"
  by (simp add: rint_def)

lemma round_decimals_0: "round_decimals n 0 = 0"
  using rint_of_int[of 0] by (simp add: round_decimals_def)

lemma round_decimals_1: "round_decimals n 1 = 1"
proof -
  have "rint (10 ^ n) = 10 ^ n" using rint_of_int[of "10 ^ n"] by simp
  then show ?thesis by (simp add: round_decimals_def)
qed

lemma round_complex_0: "round_complex n 0 = 0"
  by (simp add: round_complex_def round_decimals_0 complex_eq_iff)

lemma round_complex_1: "round_complex n 1 = 1"
  by (simp add: round_complex_def round_decimals_0 round_decimals_1 complex_eq_iff)

lemma cpow_neg_half_1: "cpow_neg_half 1 = 1"
  by (simp add: cpow_neg_half_def Arg_1)

lemma params_zyz_identity: "params_zyz [[1, 0], [0, 1]] = (0, (0, 0, 0))"
  by (simp add: params_zyz_def det2_def cpow_neg_half_1 Arg_1 Arg_zero atan2_def
      round_complex_0 round_complex_1 Let_def one_complex.code[symmetric])

lemma params_u3_identity: "params_u3 [[1, 0], [0, 1]] = (0, (0, 0, 0))"
  by (simp add: params_u3_def params_zyz_identity)

lemma is_unitary_identity_2: "0 \<le> tol \<Longrightarrow> is_unitary_matrix tol [[1, 0], [0, 1]]"
  by (simp add: is_unitary_matrix_def is_square_def mat_mul_def conj_transpose_def mk_mat_def
      nrows_def ncols_def upt2 floor_log2_2)

lemma one_qubit_identity:
  assumes "0 \<le> tol"
  shows "one_qubit_apply_unitary tol U3_basis c [[1, 0], [0, 1]] [q] =
           Inr (c\<lparr>circuit_log := circuit_log c @ [U3 0 0 0 q, GlobalPhase 0]\<rparr>)"
  using is_unitary_identity_2[OF assms]
  by (simp add: one_qubit_apply_unitary_def Operator_def bind_r_def floor_log2_2
      params_u3_identity append_gate_def)

text \<open>
  Claim C7, as the code has it for one qubit. Synthesizing the \<open>2 \<times> 2\<close> identity
  on qubit \<open>q\<close> succeeds and appends exactly two gates, \<open>U3(0, 0, 0)\<close> on \<open>q\<close> and
  \<open>GlobalPhase(0)\<close>: every angle is zero, and the gates are appended all the same, since
  the one-qubit path compares no angle with the threshold. No outside routine is used.
\<close>

theorem apply_unitary_identity_one_qubit:
  assumes "0 \<le> tolerance E" and "0 < frames"
  shows "apply_unitary E frames c (eye 2) [q] =
           Inr (c\<lparr>circuit_log := circuit_log c @ [U3 0 0 0 q, GlobalPhase 0]\<rparr>)"
proof -
  obtain f where f: "frames = Suc f" using assms(2) by (cases frames) auto
  have "quantum_shannon_decomposition E [[1, 0], [0, 1]] (Suc f) (c, []) [q] [[1, 0], [0, 1]] 0 =
      Inr (c\<lparr>circuit_log := circuit_log c @ [U3 0 0 0 q, GlobalPhase 0]\<rparr>, [])"
    by (simp add: one_qubit_identity[OF assms(1)] bind_r_def)
  then show ?thesis
    using is_unitary_identity_2[OF assms(1)]
    by (simp add: apply_unitary_def Operator_def eye_2 f bind_r_def floor_log2_2)
qed

theorem apply_unitary_identity_one_qubit_witness:
  "0 \<le> tolerance failing_env \<and> (0::nat) < 1
   \<and> apply_unitary failing_env 1 \<lparr>circuit_num_qubits = 1, circuit_log = []\<rparr> (eye 2) [0] =
       Inr \<lparr>circuit_num_qubits = 1, circuit_log = [U3 0 0 0 0, GlobalPhase 0]\<rparr>"
  using apply_unitary_identity_one_qubit [of failing_env 1
      "\<lparr>circuit_num_qubits = 1, circuit_log = []\<rparr>" 0]
  by (simp add: failing_env_def)

text \<open>
  Claim C7 as it is worded has the synthesis of an identity leave the circuit without
  gates. For one qubit the log of an empty circuit holds two gates afterwards.
\<close>

theorem apply_unitary_identity_counterexample:
  "apply_unitary failing_env 1 \<lparr>circuit_num_qubits = 1, circuit_log = []\<rparr>
       [[1, 0], [0, 1]] [0] =
     Inr \<lparr>circuit_num_qubits = 1, circuit_log = [U3 0 0 0 0, GlobalPhase 0]\<rparr>
   \<and> apply_unitary failing_env 1 \<lparr>circuit_num_qubits = 1, circuit_log = []\<rparr>
       [[1, 0], [0, 1]] [0] \<noteq>
     Inr \<lparr>circuit_num_qubits = 1, circuit_log = []\<rparr>"
proof -
  have u: "is_unitary_matrix (1 / 10 ^ 8) [[1, 0], [0, 1]]"
    by (rule is_unitary_identity_2) simp
  have q: "one_qubit_apply_unitary (1 / 10 ^ 8) U3_basis
             \<lparr>circuit_num_qubits = 1, circuit_log = []\<rparr> [[1, 0], [0, 1]] [0] =
           Inr \<lparr>circuit_num_qubits = 1, circuit_log = [U3 0 0 0 0, GlobalPhase 0]\<rparr>"
    using one_qubit_identity[of "1 / 10 ^ 8" "\<lparr>circuit_num_qubits = 1, circuit_log = []\<rparr>" 0]
    by simp
  show ?thesis
    using u q
    by (simp add: apply_unitary_def Operator_def failing_env_def bind_r_def floor_log2_2)
qed

lemma matmul_square:
  assumes "is_square a" "length a = n" "length b = n"
  shows "matmul a b = Inr (mat_mul a b)"
  using assms by (simp add: matmul_def ncols_square nrows_def)

lemma is_square_mat_mul:
  assumes "is_square b" "length a = n" "length b = n" "0 < n"
  shows "is_square (mat_mul a b) \<and> length (mat_mul a b) = n"
  using assms by (simp add: mat_mul_def ncols_square nrows_def)

lemma is_square_conj_transpose:
  assumes "is_square a"
  shows "is_square (conj_transpose a) \<and> length (conj_transpose a) = length a"
  using assms by (simp add: conj_transpose_def ncols_square nrows_def)

lemma is_square_diag: "is_square (diag v) \<and> length (diag v) = length v"
  by (simp add: diag_def)

lemma negate_columns_from_nth:
  assumes "i < length u2" "j < length (u2 ! i)"
  shows "negate_columns_from h u2 ! i ! j = (if h \<le> j then - (u2 ! i ! j) else u2 ! i ! j)"
  using assms by (auto simp: negate_columns_from_def nth_append)

lemma length_negate_columns_from: "length (negate_columns_from h u2) = length u2"
  by (simp add: negate_columns_from_def)

text \<open>
  Claim C4. For square blocks \<open>U\<^sub>1\<close>, \<open>U\<^sub>2\<close> of one size, let \<open>(d, V)\<close> be the eigenvalues and
  eigenvectors that the decomposition of \<open>U\<^sub>1 \<cdot> U\<^sub>2\<^sup>H\<close> returns: from \<open>eigh\<close> when the
  product passes the Hermitian test, else from \<open>schur\<close> with the diagonal of the
  triangular factor. Then \<open>demultiplexor\<close> runs, in this order, the decomposition of
  \<open>W = diag(\<surd>d) \<cdot> V\<^sup>H \<cdot> U\<^sub>2\<close> on all qubits but the last, appends one UCRZ with the
  angles \<open>2 \<cdot> arg(conj(\<surd>d\<^sub>i))\<close>, those qubits as controls and the last qubit as target,
  and runs the decomposition of \<open>V\<close> on all qubits but the last.
\<close>

theorem demultiplexor_structure:
  assumes "is_square unitary_1" "is_square unitary_2" "is_square V"
    and "length unitary_1 = n" "length unitary_2 = n" "length V = n" "length d = n" "0 < n"
    and "eigen_decomposition E (mat_mul unitary_1 (conj_transpose unitary_2)) = Inr (d, V)"
    and "demux_qubits \<noteq> []"
  shows "demultiplexor E top_unitary (Suc frames) st demux_qubits unitary_1 unitary_2 depth =
           bind_r (quantum_shannon_decomposition E top_unitary frames st (butlast demux_qubits)
                     (mat_mul (mat_mul (diag (map csqrt d)) (conj_transpose V)) unitary_2)
                     (depth + 1))
             (\<lambda>st1. quantum_shannon_decomposition E top_unitary frames
                      (append_gate (fst st1)
                         (UCRZ (map (\<lambda>z. 2 * Arg (cnj z)) (map csqrt d))
                               (butlast demux_qubits) (last demux_qubits)), snd st1)
                      (butlast demux_qubits) V (depth + 1))
         \<and> eigen_decomposition E u =
             (if is_hermitian_matrix (1 / 10 ^ 10) u
              then bind_r (eigh E u) (\<lambda>(w, v). Inr (map complex_of_real w, v))
              else bind_r (schur E u) (\<lambda>(t, z). Inr (diagonal_of t, z)))"
proof -
  have ct2: "is_square (conj_transpose unitary_2)" "length (conj_transpose unitary_2) = n"
    using is_square_conj_transpose[OF assms(2)] assms(5) by simp_all
  have ctV: "is_square (conj_transpose V)" "length (conj_transpose V) = n"
    using is_square_conj_transpose[OF assms(3)] assms(6) by simp_all
  have dg: "is_square (diag (map csqrt d))" "length (diag (map csqrt d)) = n"
    using is_square_diag[of "map csqrt d"] assms(7) by simp_all
  have m1: "matmul unitary_1 (conj_transpose unitary_2) = Inr (mat_mul unitary_1 (conj_transpose unitary_2))"
    by (rule matmul_square[OF assms(1) assms(4) ct2(2)])
  have m2: "matmul (diag (map csqrt d)) (conj_transpose V) =
      Inr (mat_mul (diag (map csqrt d)) (conj_transpose V))"
    by (rule matmul_square[OF dg ctV(2)])
  have sq3: "is_square (mat_mul (diag (map csqrt d)) (conj_transpose V))"
    "length (mat_mul (diag (map csqrt d)) (conj_transpose V)) = n"
    using is_square_mat_mul[OF ctV(1) dg(2) ctV(2) assms(8)] by simp_all
  have m3: "matmul (mat_mul (diag (map csqrt d)) (conj_transpose V)) unitary_2 =
      Inr (mat_mul (mat_mul (diag (map csqrt d)) (conj_transpose V)) unitary_2)"
    by (rule matmul_square[OF sq3 assms(5)])
  have "demultiplexor E top_unitary (Suc frames) st demux_qubits unitary_1 unitary_2 depth =
           bind_r (quantum_shannon_decomposition E top_unitary frames st (butlast demux_qubits)
                     (mat_mul (mat_mul (diag (map csqrt d)) (conj_transpose V)) unitary_2)
                     (depth + 1))
             (\<lambda>st1. quantum_shannon_decomposition E top_unitary frames
                      (append_gate (fst st1)
                         (UCRZ (map (\<lambda>z. 2 * Arg (cnj z)) (map csqrt d))
                               (butlast demux_qubits) (last demux_qubits)), snd st1)
                      (butlast demux_qubits) V (depth + 1))"
    using assms(10)
    by (simp add: m1 assms(9) m2 m3 bind_r_def Let_def split: sum.splits)
  then show ?thesis by (simp add: eigen_decomposition_def)
qed

text \<open>
  Claim C5. On a unitary of dimension above four whose cosine-sine decomposition is
  \<open>(L\<^sub>1, L\<^sub>2), \<theta>, (R\<^sub>1, R\<^sub>2)\<close> with \<open>m = 2 ^ k\<close> angles, the driver runs the left
  demultiplexor on \<open>(R\<^sub>1, R\<^sub>2)\<close>, then appends the CZ-basis rotation for the angles
  \<open>2\<theta>\<close>, whose last step has no CZ (see \<open>ucry_cz_step\<close>), then runs the right
  demultiplexor on \<open>L\<^sub>1\<close> and on \<open>L\<^sub>2\<close> with exactly the columns \<open>m/2, \<dots>, m - 1\<close> negated,
  and at depth zero finishes with the A.2 pass.
\<close>

theorem qsd_recursive_step:
  assumes "4 < length unitary"
    and "cossin E unitary = Inr ((u1, u2), vtheta, (v1h, v2h))"
    and "1 \<le> k" and "length qubit_indices = Suc k" and "length vtheta = 2 ^ k"
    and "length (decompose_uc_rotations E (map (\<lambda>t. 2 * t) vtheta)) = 2 ^ k"
    and "is_square u2" and "length u2 = 2 ^ k"
  shows "quantum_shannon_decomposition E top_unitary (Suc frames) st qubit_indices unitary depth =
           bind_r (demultiplexor E top_unitary frames st qubit_indices v1h v2h depth) (\<lambda>st1.
           bind_r (demultiplexor E top_unitary frames
                     ((fst st1)\<lparr>circuit_log := circuit_log (fst st1) @
                        concat (map (ucry_cz_step (butlast qubit_indices) (last qubit_indices)
                                       (2 ^ k)
                                       (decompose_uc_rotations E (map (\<lambda>t. 2 * t) vtheta)))
                                  [0..<2 ^ k])\<rparr>,
                      snd st1)
                     qubit_indices u1 (negate_columns_from (2 ^ k div 2) u2) depth) (\<lambda>st3.
             if depth = 0
             then bind_r (apply_a2_optimization E top_unitary (fst st3) (snd st3))
                    (\<lambda>c. Inr (c, snd st3))
             else Inr st3))
         \<and> is_square (negate_columns_from (2 ^ k div 2) u2)
         \<and> length (negate_columns_from (2 ^ k div 2) u2) = 2 ^ k
         \<and> (\<forall>i<2 ^ k. \<forall>j<2 ^ k.
               negate_columns_from (2 ^ k div 2) u2 ! i ! j =
                 (if 2 ^ k div 2 \<le> j then - (u2 ! i ! j) else u2 ! i ! j))"
proof -
  have ucry: "\<And>c. get_ucry_cz (decompose_uc_rotations E) c qubit_indices (map (\<lambda>t. 2 * t) vtheta) =
      Inr (c\<lparr>circuit_log := circuit_log c @
             concat (map (ucry_cz_step (butlast qubit_indices) (last qubit_indices) (2 ^ k)
                            (decompose_uc_rotations E (map (\<lambda>t. 2 * t) vtheta))) [0..<2 ^ k])\<rparr>)"
    using assms(3,4,5,6) by (intro get_ucry_cz_log) simp_all
  have dim: "length unitary \<noteq> 2" "length unitary \<noteq> 4" using assms(1) by simp_all
  have step: "quantum_shannon_decomposition E top_unitary (Suc frames) st qubit_indices unitary depth =
           bind_r (demultiplexor E top_unitary frames st qubit_indices v1h v2h depth) (\<lambda>st1.
           bind_r (demultiplexor E top_unitary frames
                     ((fst st1)\<lparr>circuit_log := circuit_log (fst st1) @
                        concat (map (ucry_cz_step (butlast qubit_indices) (last qubit_indices)
                                       (2 ^ k)
                                       (decompose_uc_rotations E (map (\<lambda>t. 2 * t) vtheta)))
                                  [0..<2 ^ k])\<rparr>,
                      snd st1)
                     qubit_indices u1 (negate_columns_from (2 ^ k div 2) u2) depth) (\<lambda>st3.
             if depth = 0
             then bind_r (apply_a2_optimization E top_unitary (fst st3) (snd st3))
                    (\<lambda>c. Inr (c, snd st3))
             else Inr st3))"
    using dim by (simp add: assms(2) assms(5) ucry bind_r_def Let_def cong: sum.case_cong)
  have rows: "\<And>i. i < 2 ^ k \<Longrightarrow> length (u2 ! i) = 2 ^ k"
    using assms(7,8) by (simp add: is_square_row)
  have sq: "is_square (negate_columns_from (2 ^ k div 2) u2)"
    using assms(7) by (auto simp: is_square_def negate_columns_from_def list_all_iff min_def)
  have ent: "\<forall>i<2 ^ k. \<forall>j<2 ^ k.
               negate_columns_from (2 ^ k div 2) u2 ! i ! j =
                 (if 2 ^ k div 2 \<le> j then - (u2 ! i ! j) else u2 ! i ! j)"
    using assms(8) rows by (intro allI impI negate_columns_from_nth) simp_all
  show ?thesis using step sq ent assms(8) by (simp add: length_negate_columns_from)
qed

lemma mat_mul_identity_2:
  "mat_mul [[1, 0], [0, 1]] (conj_transpose [[1, 0], [0, 1]]) = [[1, 0], [0, 1]]"
  by (simp add: mat_mul_def conj_transpose_def mk_mat_def nrows_def ncols_def upt2)

lemma is_hermitian_identity_2: "is_hermitian_matrix (1 / 10 ^ 10) [[1, 0], [0, 1]]"
  by (simp add: is_hermitian_matrix_def is_square_def upt2)

lemma demux_W_identity_2:
  "mat_mul (mat_mul (diag (map csqrt [1, 1])) (conj_transpose [[1, 0], [0, 1]])) [[1, 0], [0, 1]]
     = [[1, 0], [0, 1]]"
  by (simp add: mat_mul_def conj_transpose_def diag_def mk_mat_def nrows_def ncols_def upt2)

theorem demultiplexor_structure_witness:
  "is_square [[1, 0], [0, 1 :: complex]] \<and> length [[1, 0], [0, 1 :: complex]] = 2
   \<and> length [1, 1 :: complex] = 2 \<and> (0 :: nat) < 2
   \<and> eigen_decomposition (failing_env\<lparr>eigh := \<lambda>u. Inr ([1, 1], [[1, 0], [0, 1]])\<rparr>)
         (mat_mul [[1, 0], [0, 1]] (conj_transpose [[1, 0], [0, 1]]))
       = Inr ([1, 1], [[1, 0], [0, 1]])
   \<and> [0, 1 :: int] \<noteq> []
   \<and> demultiplexor (failing_env\<lparr>eigh := \<lambda>u. Inr ([1, 1], [[1, 0], [0, 1]])\<rparr>) [[1, 0], [0, 1]]
         (Suc 1) (\<lparr>circuit_num_qubits = 2, circuit_log = []\<rparr>, []) [0, 1]
         [[1, 0], [0, 1]] [[1, 0], [0, 1]] 0
       = Inr (\<lparr>circuit_num_qubits = 2, circuit_log =
                [U3 0 0 0 0, GlobalPhase 0, UCRZ [0, 0] [0] 1, U3 0 0 0 0, GlobalPhase 0]\<rparr>, [])"
proof -
  let ?E = "failing_env\<lparr>eigh := \<lambda>u. Inr ([1, 1], [[1, 0], [0, 1]])\<rparr>"
  have sq: "is_square [[1, 0], [0, 1 :: complex]]" by (simp add: is_square_def)
  have eig: "eigen_decomposition ?E (mat_mul [[1, 0], [0, 1]] (conj_transpose [[1, 0], [0, 1]]))
       = Inr ([1, 1], [[1, 0], [0, 1]])"
    using is_hermitian_identity_2
    by (simp add: eigen_decomposition_def mat_mul_identity_2 bind_r_def)
  have tol: "0 \<le> tolerance failing_env" by (simp add: failing_env_def)
  have q: "\<And>c q. one_qubit_apply_unitary (tolerance failing_env) U3_basis c [[1, 0], [0, 1]] [q] =
           Inr (c\<lparr>circuit_log := circuit_log c @ [U3 0 0 0 q, GlobalPhase 0]\<rparr>)"
    by (rule one_qubit_identity[OF tol])
  have q1: "\<And>c b q. quantum_shannon_decomposition ?E [[1, 0], [0, 1]] (Suc 0) (c, b) [q]
               [[1, 0], [0, 1]] (Suc 0) =
           Inr (c\<lparr>circuit_log := circuit_log c @ [U3 0 0 0 q, GlobalPhase 0]\<rparr>, b)"
    by (simp add: q bind_r_def)
  have inst: "demultiplexor ?E [[1, 0], [0, 1]] (Suc 1)
          (\<lparr>circuit_num_qubits = 2, circuit_log = []\<rparr>, []) [0, 1]
          [[1, 0], [0, 1]] [[1, 0], [0, 1]] 0 =
        bind_r (quantum_shannon_decomposition ?E [[1, 0], [0, 1]] 1
                  (\<lparr>circuit_num_qubits = 2, circuit_log = []\<rparr>, []) (butlast [0, 1])
                  (mat_mul (mat_mul (diag (map csqrt [1, 1])) (conj_transpose [[1, 0], [0, 1]]))
                     [[1, 0], [0, 1]]) (0 + 1))
          (\<lambda>st1. quantum_shannon_decomposition ?E [[1, 0], [0, 1]] 1
                   (append_gate (fst st1)
                      (UCRZ (map (\<lambda>z. 2 * Arg (cnj z)) (map csqrt [1, 1]))
                            (butlast [0, 1]) (last [0, 1])), snd st1)
                   (butlast [0, 1]) [[1, 0], [0, 1]] (0 + 1))"
    by (rule conjunct1 [OF demultiplexor_structure [where n = 2 and d = "[1, 1]",
            OF sq sq sq _ _ _ _ _ eig]]) simp_all
  have "demultiplexor ?E [[1, 0], [0, 1]] (Suc 1)
          (\<lparr>circuit_num_qubits = 2, circuit_log = []\<rparr>, []) [0, 1]
          [[1, 0], [0, 1]] [[1, 0], [0, 1]] 0
       = Inr (\<lparr>circuit_num_qubits = 2, circuit_log =
                [U3 0 0 0 0, GlobalPhase 0, UCRZ [0, 0] [0] 1, U3 0 0 0 0, GlobalPhase 0]\<rparr>, [])"
    unfolding inst demux_W_identity_2
    by (simp add: q1 bind_r_def append_gate_def Arg_1
        del: quantum_shannon_decomposition.simps demultiplexor.simps)
  then show ?thesis using sq eig by simp
qed

lemma eye_4: "eye 4 = [[1, 0, 0, 0], [0, 1, 0, 0], [0, 0, 1, 0], [0, 0, 0, 1]]"
  by (simp add: eye_def mk_mat_def upt4)

lemma demultiplexor_steps:
  assumes "is_square unitary_1" "is_square unitary_2" "is_square V"
    and "length unitary_1 = n" "length unitary_2 = n" "length V = n" "length d = n" "0 < n"
    and "eigen_decomposition E (mat_mul unitary_1 (conj_transpose unitary_2)) = Inr (d, V)"
    and "demux_qubits \<noteq> []"
  shows "demultiplexor E top_unitary (Suc frames) st demux_qubits unitary_1 unitary_2 depth =
           bind_r (quantum_shannon_decomposition E top_unitary frames st (butlast demux_qubits)
                     (mat_mul (mat_mul (diag (map csqrt d)) (conj_transpose V)) unitary_2)
                     (depth + 1))
             (\<lambda>st1. quantum_shannon_decomposition E top_unitary frames
                      (append_gate (fst st1)
                         (UCRZ (map (\<lambda>z. 2 * Arg (cnj z)) (map csqrt d))
                               (butlast demux_qubits) (last demux_qubits)), snd st1)
                      (butlast demux_qubits) V (depth + 1))"
proof -
  have ct2: "is_square (conj_transpose unitary_2)" "length (conj_transpose unitary_2) = n"
    using is_square_conj_transpose[OF assms(2)] assms(5) by simp_all
  have ctV: "is_square (conj_transpose V)" "length (conj_transpose V) = n"
    using is_square_conj_transpose[OF assms(3)] assms(6) by simp_all
  have dg: "is_square (diag (map csqrt d))" "length (diag (map csqrt d)) = n"
    using is_square_diag[of "map csqrt d"] assms(7) by simp_all
  have m1: "matmul unitary_1 (conj_transpose unitary_2) = Inr (mat_mul unitary_1 (conj_transpose unitary_2))"
    by (rule matmul_square[OF assms(1) assms(4) ct2(2)])
  have m2: "matmul (diag (map csqrt d)) (conj_transpose V) =
      Inr (mat_mul (diag (map csqrt d)) (conj_transpose V))"
    by (rule matmul_square[OF dg ctV(2)])
  have sq3: "is_square (mat_mul (diag (map csqrt d)) (conj_transpose V))"
    "length (mat_mul (diag (map csqrt d)) (conj_transpose V)) = n"
    using is_square_mat_mul[OF ctV(1) dg(2) ctV(2) assms(8)] by simp_all
  have m3: "matmul (mat_mul (diag (map csqrt d)) (conj_transpose V)) unitary_2 =
      Inr (mat_mul (mat_mul (diag (map csqrt d)) (conj_transpose V)) unitary_2)"
    by (rule matmul_square[OF sq3 assms(5)])
  show ?thesis
    using assms(10)
    by (simp add: m1 assms(9) m2 m3 bind_r_def Let_def split: sum.splits)
qed

lemma negate_right_half_eye_4:
  "negate_columns_from (2 ^ 2 div 2) (eye 4) =
     [[1, 0, 0, 0], [0, 1, 0, 0], [0, 0, - 1, 0], [0, 0, 0, - 1]]"
  by (simp add: eye_4 negate_columns_from_def)

lemma is_square_4:
  "is_square [[a0, a1, a2, a3], [b0, b1, b2, b3], [c0, c1, c2, c3], [d0, d1, d2, d3]]"
  by (simp add: is_square_def)

lemma eye_4_Suc:
  "eye (Suc (Suc (Suc (Suc 0)))) = [[1, 0, 0, 0], [0, 1, 0, 0], [0, 0, 1, 0], [0, 0, 0, 1]]"
  using eye_4 by (simp add: eval_nat_numeral)

lemma diagonal_env_eigen_identity:
  "eigen_decomposition diagonal_env
     (mat_mul [[1, 0, 0, 0], [0, 1, 0, 0], [0, 0, 1, 0], [0, 0, 0, 1]]
        (conj_transpose [[1, 0, 0, 0], [0, 1, 0, 0], [0, 0, 1, 0], [0, 0, 0, 1]])) =
   Inr ([1, 1, 1, 1], [[1, 0, 0, 0], [0, 1, 0, 0], [0, 0, 1, 0], [0, 0, 0, 1]])"
proof -
  have m: "mat_mul [[1, 0, 0, 0], [0, 1, 0, 0], [0, 0, 1, 0], [0, 0, 0, 1]]
        (conj_transpose [[1, 0, 0, 0], [0, 1, 0, 0], [0, 0, 1, 0], [0, 0, 0, 1]]) =
      [[1, 0, 0, 0], [0, 1, 0, 0], [0, 0, 1, 0], [0, 0, 0, 1]]"
    by (simp add: mat_mul_def conj_transpose_def mk_mat_def nrows_def ncols_def upt4)
  have h: "is_hermitian_matrix (1 / 10 ^ 10) [[1, 0, 0, 0], [0, 1, 0, 0], [0, 0, 1, 0], [0, 0, 0, 1]]"
    by (simp add: is_hermitian_matrix_def is_square_def upt4)
  show ?thesis
    unfolding m using h
    by (simp add: eigen_decomposition_def diagonal_env_def bind_r_def diagonal_of_def
        nrows_def ncols_def upt4 eye_4_Suc)
qed

lemma diagonal_env_eigen_negated:
  "eigen_decomposition diagonal_env
     (mat_mul [[1, 0, 0, 0], [0, 1, 0, 0], [0, 0, 1, 0], [0, 0, 0, 1]]
        (conj_transpose [[1, 0, 0, 0], [0, 1, 0, 0], [0, 0, - 1, 0], [0, 0, 0, - 1]])) =
   Inr ([1, 1, - 1, - 1], [[1, 0, 0, 0], [0, 1, 0, 0], [0, 0, 1, 0], [0, 0, 0, 1]])"
proof -
  have m: "mat_mul [[1, 0, 0, 0], [0, 1, 0, 0], [0, 0, 1, 0], [0, 0, 0, 1]]
        (conj_transpose [[1, 0, 0, 0], [0, 1, 0, 0], [0, 0, - 1, 0], [0, 0, 0, - 1]]) =
      [[1, 0, 0, 0], [0, 1, 0, 0], [0, 0, - 1, 0], [0, 0, 0, - 1]]"
    by (simp add: mat_mul_def conj_transpose_def mk_mat_def nrows_def ncols_def upt4)
  have h: "is_hermitian_matrix (1 / 10 ^ 10)
             [[1, 0, 0, 0], [0, 1, 0, 0], [0, 0, - 1, 0], [0, 0, 0, - 1]]"
    by (simp add: is_hermitian_matrix_def is_square_def upt4)
  show ?thesis
    unfolding m using h
    by (simp add: eigen_decomposition_def diagonal_env_def bind_r_def diagonal_of_def
        nrows_def ncols_def upt4 eye_4_Suc)
qed

lemma demux_W_identity_4:
  "mat_mul (mat_mul (diag (map csqrt [1, 1, 1, 1]))
              (conj_transpose [[1, 0, 0, 0], [0, 1, 0, 0], [0, 0, 1, 0], [0, 0, 0, 1]]))
     [[1, 0, 0, 0], [0, 1, 0, 0], [0, 0, 1, 0], [0, 0, 0, 1]] =
   [[1, 0, 0, 0], [0, 1, 0, 0], [0, 0, 1, 0], [0, 0, 0, 1]]"
  by (simp add: mat_mul_def conj_transpose_def diag_def mk_mat_def nrows_def ncols_def upt4)

lemma demux_W_negated_4:
  "mat_mul (mat_mul (diag (map csqrt [1, 1, - 1, - 1]))
              (conj_transpose [[1, 0, 0, 0], [0, 1, 0, 0], [0, 0, 1, 0], [0, 0, 0, 1]]))
     [[1, 0, 0, 0], [0, 1, 0, 0], [0, 0, - 1, 0], [0, 0, 0, - 1]] =
   [[1, 0, 0, 0], [0, 1, 0, 0], [0, 0, - \<i>, 0], [0, 0, 0, - \<i>]]"
  by (simp add: mat_mul_def conj_transpose_def diag_def mk_mat_def nrows_def ncols_def upt4)

lemma diagonal_env_leaf:
  assumes "length W = 4" and "0 < frames" and "0 < depth"
  shows "quantum_shannon_decomposition diagonal_env top_unitary frames (c, b) q W depth =
           Inr (if W ! 2 ! 2 = 1 then c
                else c\<lparr>circuit_log := circuit_log c @
                         [RZ (Arg (W ! 2 ! 2)) (q ! 1), GlobalPhase (Arg (W ! 2 ! 2) / 2)]\<rparr>,
                b @ [(length (circuit_log c),
                      length (circuit_log c) + (if W ! 2 ! 2 = 1 then 0 else 2))])"
proof -
  obtain f where f: "frames = Suc f" using assms(2) by (cases frames) simp_all
  show ?thesis
    unfolding f using assms(1,3)
    by (simp add: diagonal_env_def bind_r_def append_gate_def Let_def)
qed

lemma demultiplexor_frames_3:
  "demultiplexor E top_unitary 3 st q a b depth = demultiplexor E top_unitary (Suc 2) st q a b depth"
  by (simp only: numeral_3_eq_3 numeral_2_eq_2)

lemma ucry_cz_steps_zero:
  "concat (map (ucry_cz_step [0, 1] 2 (2 ^ 2) [0, 0, 0, 0]) [0..<2 ^ 2]) =
     [CZ 0 2, CZ 1 2, CZ 0 2]"
proof -
  have u: "[0..<2 ^ 2] = [0, Suc 0, Suc (Suc 0), Suc (Suc (Suc 0))]"
    by (simp add: upt_rec)
  have t: "trailing_zeros (Suc 0) = 0" "trailing_zeros (Suc (Suc 0)) = 1"
    "trailing_zeros (Suc (Suc (Suc 0))) = 0"
    by (simp_all add: trailing_zeros.simps[of "Suc 0"] trailing_zeros.simps[of "Suc (Suc 0)"]
        trailing_zeros.simps[of "Suc (Suc (Suc 0))"])
  show ?thesis unfolding u by (simp add: ucry_cz_step_def EPSILON_def t)
qed


theorem qsd_recursive_step_witness:
  "4 < length (eye 8)
   \<and> cossin diagonal_env (eye 8) = Inr ((eye 4, eye 4), [0, 0, 0, 0], (eye 4, eye 4))
   \<and> (1 :: nat) \<le> 2 \<and> length [0, 1, 2 :: int] = Suc 2 \<and> length [0, 0, 0, 0 :: real] = 2 ^ 2
   \<and> length (decompose_uc_rotations diagonal_env (map (\<lambda>t. 2 * t) [0, 0, 0, 0])) = 2 ^ 2
   \<and> is_square (eye 4) \<and> length (eye 4) = 2 ^ 2
   \<and> negate_columns_from (2 ^ 2 div 2) (eye 4) =
       [[1, 0, 0, 0], [0, 1, 0, 0], [0, 0, - 1, 0], [0, 0, 0, - 1]]
   \<and> quantum_shannon_decomposition diagonal_env (eye 16) (Suc 3)
        (\<lparr>circuit_num_qubits = 3, circuit_log = []\<rparr>, []) [0, 1, 2] (eye 8) 1
       = Inr (\<lparr>circuit_num_qubits = 3, circuit_log =
                [UCRZ [0, 0, 0, 0] [0, 1] 2,
                 CZ 0 2, CZ 1 2, CZ 0 2,
                 RZ (- pi / 2) 1, GlobalPhase (- pi / 4),
                 UCRZ [0, 0, - pi, - pi] [0, 1] 2]\<rparr>,
              [(0, 0), (1, 1), (4, 6), (7, 7)])"
proof -
  let ?I = "[[1, 0, 0, 0], [0, 1, 0, 0], [0, 0, 1, 0], [0, 0, 0, 1 :: complex]]"
  let ?S = "[[1, 0, 0, 0], [0, 1, 0, 0], [0, 0, - 1, 0], [0, 0, 0, - 1 :: complex]]"
  let ?c0 = "\<lparr>circuit_num_qubits = 3, circuit_log = []\<rparr>"
  have cs: "cossin diagonal_env (eye 8) = Inr ((eye 4, eye 4), [0, 0, 0, 0], (eye 4, eye 4))"
    by (simp add: diagonal_env_def)
  have dec: "decompose_uc_rotations diagonal_env (map (\<lambda>t. 2 * t) [0, 0, 0, 0]) = [0, 0, 0, 0]"
    by (simp add: diagonal_env_def)
  have dec0: "decompose_uc_rotations diagonal_env [0, 0, 0, 0] = [0, 0, 0, 0]"
    by (simp add: diagonal_env_def)
  have sqI: "is_square (eye 4)" "length (eye 4) = 2 ^ 2" by (simp_all add: eye_4 is_square_def)
  have leaf_I: "\<And>tu c b. quantum_shannon_decomposition diagonal_env tu 2 (c, b)
                   [0, 1] ?I (Suc (Suc 0)) =
                 Inr (c, b @ [(length (circuit_log c), length (circuit_log c))])"
    by (simp add: diagonal_env_leaf del: quantum_shannon_decomposition.simps)
  have leaf_W: "\<And>tu c b. quantum_shannon_decomposition diagonal_env tu 2 (c, b)
                   [0, 1] [[1, 0, 0, 0], [0, 1, 0, 0], [0, 0, - \<i>, 0], [0, 0, 0, - \<i>]]
                   (Suc (Suc 0)) =
                 Inr (c\<lparr>circuit_log := circuit_log c @ [RZ (- pi / 2) 1, GlobalPhase (- pi / 4)]\<rparr>,
                      b @ [(length (circuit_log c), length (circuit_log c) + 2)])"
    by (simp add: diagonal_env_leaf complex_eq_iff del: quantum_shannon_decomposition.simps)
  have a1: "map (\<lambda>z. 2 * Arg (cnj z)) (map csqrt [1, 1, 1, 1]) = [0, 0, 0, 0]"
    by (simp add: Arg_1)
  have a2: "map (\<lambda>z. 2 * Arg (cnj z)) (map csqrt [1, 1, - 1, - 1]) = [0, 0, - pi, - pi]"
    by (simp add: Arg_1)
  have left: "\<And>tu. demultiplexor diagonal_env tu 3 (?c0, []) [0, 1, 2] ?I ?I 1 =
      Inr (\<lparr>circuit_num_qubits = 3, circuit_log = [UCRZ [0, 0, 0, 0] [0, 1] 2]\<rparr>,
           [(0, 0), (1, 1)])"
  proof -
    fix tu
    have inst: "demultiplexor diagonal_env tu (Suc 2) (?c0, []) [0, 1, 2] ?I ?I 1 =
        bind_r (quantum_shannon_decomposition diagonal_env tu 2 (?c0, []) (butlast [0, 1, 2])
                  (mat_mul (mat_mul (diag (map csqrt [1, 1, 1, 1])) (conj_transpose ?I)) ?I)
                  (1 + 1))
          (\<lambda>st1. quantum_shannon_decomposition diagonal_env tu 2
                   (append_gate (fst st1)
                      (UCRZ (map (\<lambda>z. 2 * Arg (cnj z)) (map csqrt [1, 1, 1, 1]))
                            (butlast [0, 1, 2]) (last [0, 1, 2])), snd st1)
                   (butlast [0, 1, 2]) ?I (1 + 1))"
      by (rule demultiplexor_steps [where n = 4 and d = "[1, 1, 1, 1]",
              OF is_square_4 is_square_4 is_square_4 _ _ _ _ _ diagonal_env_eigen_identity])
         simp_all
    show "demultiplexor diagonal_env tu 3 (?c0, []) [0, 1, 2] ?I ?I 1 =
      Inr (\<lparr>circuit_num_qubits = 3, circuit_log = [UCRZ [0, 0, 0, 0] [0, 1] 2]\<rparr>,
           [(0, 0), (1, 1)])"
      unfolding demultiplexor_frames_3 inst demux_W_identity_4 a1
      by (simp add: leaf_I bind_r_def append_gate_def
          del: quantum_shannon_decomposition.simps demultiplexor.simps)
  qed
  have right: "\<And>tu. demultiplexor diagonal_env tu 3
        (\<lparr>circuit_num_qubits = 3, circuit_log =
            [UCRZ [0, 0, 0, 0] [0, 1] 2, CZ 0 2, CZ 1 2, CZ 0 2]\<rparr>, [(0, 0), (1, 1)])
        [0, 1, 2] ?I ?S 1 =
      Inr (\<lparr>circuit_num_qubits = 3, circuit_log =
                [UCRZ [0, 0, 0, 0] [0, 1] 2,
                 CZ 0 2, CZ 1 2, CZ 0 2,
                 RZ (- pi / 2) 1, GlobalPhase (- pi / 4),
                 UCRZ [0, 0, - pi, - pi] [0, 1] 2]\<rparr>,
              [(0, 0), (1, 1), (4, 6), (7, 7)])"
  proof -
    fix tu
    let ?c1 = "\<lparr>circuit_num_qubits = 3, circuit_log =
            [UCRZ [0, 0, 0, 0] [0, 1] 2, CZ 0 2, CZ 1 2, CZ 0 2]\<rparr>"
    have inst: "demultiplexor diagonal_env tu (Suc 2) (?c1, [(0, 0), (1, 1)]) [0, 1, 2] ?I ?S 1 =
        bind_r (quantum_shannon_decomposition diagonal_env tu 2 (?c1, [(0, 0), (1, 1)])
                  (butlast [0, 1, 2])
                  (mat_mul (mat_mul (diag (map csqrt [1, 1, - 1, - 1])) (conj_transpose ?I)) ?S)
                  (1 + 1))
          (\<lambda>st1. quantum_shannon_decomposition diagonal_env tu 2
                   (append_gate (fst st1)
                      (UCRZ (map (\<lambda>z. 2 * Arg (cnj z)) (map csqrt [1, 1, - 1, - 1]))
                            (butlast [0, 1, 2]) (last [0, 1, 2])), snd st1)
                   (butlast [0, 1, 2]) ?I (1 + 1))"
      by (rule demultiplexor_steps [where n = 4 and d = "[1, 1, - 1, - 1]",
              OF is_square_4 is_square_4 is_square_4 _ _ _ _ _ diagonal_env_eigen_negated])
         simp_all
    show "demultiplexor diagonal_env tu 3 (?c1, [(0, 0), (1, 1)]) [0, 1, 2] ?I ?S 1 =
      Inr (\<lparr>circuit_num_qubits = 3, circuit_log =
                [UCRZ [0, 0, 0, 0] [0, 1] 2,
                 CZ 0 2, CZ 1 2, CZ 0 2,
                 RZ (- pi / 2) 1, GlobalPhase (- pi / 4),
                 UCRZ [0, 0, - pi, - pi] [0, 1] 2]\<rparr>,
              [(0, 0), (1, 1), (4, 6), (7, 7)])"
      unfolding demultiplexor_frames_3 inst demux_W_negated_4 a2
      by (simp add: leaf_I leaf_W bind_r_def append_gate_def
          del: quantum_shannon_decomposition.simps demultiplexor.simps)
  qed
  have len8: "4 < length (eye 8)" by (simp add: eye_def)
  have inst: "quantum_shannon_decomposition diagonal_env (eye 16) (Suc 3)
          (?c0, []) [0, 1, 2] (eye 8) 1 =
        bind_r (demultiplexor diagonal_env (eye 16) 3 (?c0, []) [0, 1, 2] (eye 4) (eye 4) 1)
          (\<lambda>st1.
           bind_r (demultiplexor diagonal_env (eye 16) 3
                     ((fst st1)\<lparr>circuit_log := circuit_log (fst st1) @
                        concat (map (ucry_cz_step (butlast [0, 1, 2]) (last [0, 1, 2])
                                       (2 ^ 2)
                                       (decompose_uc_rotations diagonal_env
                                          (map (\<lambda>t. 2 * t) [0, 0, 0, 0])))
                                  [0..<2 ^ 2])\<rparr>,
                      snd st1)
                     [0, 1, 2] (eye 4) (negate_columns_from (2 ^ 2 div 2) (eye 4)) 1) (\<lambda>st3.
             if (1::nat) = 0
             then bind_r (apply_a2_optimization diagonal_env (eye 16) (fst st3) (snd st3))
                    (\<lambda>c. Inr (c, snd st3))
             else Inr st3))"
    by (rule conjunct1 [OF qsd_recursive_step [where k = 2, OF len8 cs _ _ _ _ sqI]])
       (simp_all add: dec0)
  have neg: "negate_columns_from (2 ^ 2 div 2) ?I = ?S"
    by (simp add: negate_columns_from_def)
  have bl: "butlast [0, 1, 2 :: int] = [0, 1]" "last [0, 1, 2 :: int] = 2" by simp_all
  have run: "quantum_shannon_decomposition diagonal_env (eye 16) (Suc 3)
          (?c0, []) [0, 1, 2] (eye 8) 1 =
        Inr (\<lparr>circuit_num_qubits = 3, circuit_log =
                [UCRZ [0, 0, 0, 0] [0, 1] 2,
                 CZ 0 2, CZ 1 2, CZ 0 2,
                 RZ (- pi / 2) 1, GlobalPhase (- pi / 4),
                 UCRZ [0, 0, - pi, - pi] [0, 1] 2]\<rparr>,
              [(0, 0), (1, 1), (4, 6), (7, 7)])"
    unfolding inst dec bl ucry_cz_steps_zero eye_4 neg left
    using right [of "eye 16"]
    by (simp add: bind_r_def del: quantum_shannon_decomposition.simps demultiplexor.simps)
  show ?thesis
    using len8 cs sqI negate_right_half_eye_4 run
    by (simp add: dec0 del: quantum_shannon_decomposition.simps demultiplexor.simps)
qed

section \<open>Properties of \<open>params_zyz\<close>\<close>

lemma Arg_eq_0_real: "Arg z = 0 \<Longrightarrow> Im z = 0"
  using rcis_cmod_Arg[of z] by (auto simp: complex_eq_iff)

lemma cis_Arg_unit: "cmod z = 1 \<Longrightarrow> cis (Arg z) = z"
  using rcis_cmod_Arg[of z] by (simp add: rcis_def)

lemma su2_form:
  fixes va vb vc vd :: complex
  assumes E1: "va * cnj va + vb * cnj vb = 1"
    and E2: "va * cnj vc + vb * cnj vd = 0"
    and E4: "va * vd - vb * vc = 1"
  shows "vd = cnj va \<and> vb = - cnj vc"
proof -
  have E2c: "cnj va * vc + cnj vb * vd = 0"
    using arg_cong[OF E2, of cnj] by simp
  have "cnj va = cnj va * (va * vd - vb * vc)" using E4 by simp
  also have "\<dots> = (va * cnj va) * vd - vb * (cnj va * vc)" by (simp add: algebra_simps)
  also have "cnj va * vc = - (cnj vb * vd)" using E2c by (simp add: add_eq_0_iff)
  also have "(va * cnj va) * vd - vb * (- (cnj vb * vd)) = (va * cnj va + vb * cnj vb) * vd"
    by (simp add: algebra_simps)
  also have "\<dots> = vd" using E1 by simp
  finally have d: "vd = cnj va" by simp
  have "va * (cnj vc + vb) = 0" using E2 d by (simp add: algebra_simps)
  then consider "va = 0" | "cnj vc + vb = 0" by auto
  then have "vb = - cnj vc"
  proof cases
    case 1
    then have b1: "vb * cnj vb = 1" and bc: "- (vb * vc) = 1" using E1 E4 by simp_all
    have "cnj vb = cnj vb * (- (vb * vc))" unfolding bc by simp
    also have "\<dots> = - ((vb * cnj vb) * vc)" by (simp add: algebra_simps)
    also have "\<dots> = - vc" using b1 by simp
    finally have "cnj vb = - vc" .
    then have "cnj (cnj vb) = cnj (- vc)" by simp
    then show ?thesis by simp
  next
    case 2
    then show ?thesis by (simp add: add_eq_0_iff)
  qed
  then show ?thesis using d by simp
qed

lemma det2_unit:
  fixes a b c d :: complex
  assumes "a * cnj a + b * cnj b = 1" "a * cnj c + b * cnj d = 0" "c * cnj c + d * cnj d = 1"
  shows "cmod (a * d - b * c) = 1"
proof -
  have E2c: "c * cnj a + d * cnj b = 0"
    using arg_cong[OF assms(2), of cnj] by (simp add: mult.commute)
  have "(a * d - b * c) * cnj (a * d - b * c) =
        (a * cnj a + b * cnj b) * (c * cnj c + d * cnj d) - (a * cnj c + b * cnj d) * (c * cnj a + d * cnj b)"
    by (simp add: algebra_simps)
  also have "\<dots> = 1" using assms E2c by simp
  finally have p: "(a * d - b * c) * cnj (a * d - b * c) = 1" .
  have n: "complex_of_real ((cmod (a * d - b * c))\<^sup>2) = (a * d - b * c) * cnj (a * d - b * c)"
    by (rule complex_norm_square)
  have "complex_of_real ((cmod (a * d - b * c))\<^sup>2) = 1"
    unfolding n p ..
  then have "(cmod (a * d - b * c))\<^sup>2 = 1" using of_real_eq_1_iff by blast
  then show ?thesis
    using norm_ge_zero[of "a * d - b * c"] by (auto simp: power2_eq_1_iff)
qed

lemma cpow_neg_half_unit:
  assumes "cmod D = 1"
  shows "cmod (cpow_neg_half D) = 1" and "cpow_neg_half D * cpow_neg_half D * D = 1"
proof -
  have c: "cpow_neg_half D = cis (- Arg D / 2)"
    using assms by (simp add: cpow_neg_half_def rcis_def)
  show "cmod (cpow_neg_half D) = 1" by (simp add: c)
  have "cpow_neg_half D * cpow_neg_half D = cis (- Arg D)"
    by (simp add: c cis_mult)
  also have "\<dots> = cnj (cis (Arg D))" by (simp add: cis_cnj)
  also have "\<dots> = cnj D" using cis_Arg_unit[OF assms] by simp
  finally have "cpow_neg_half D * cpow_neg_half D * D = cnj D * D" by simp
  also have "\<dots> = 1" using assms by (simp add: mult.commute[of "cnj D"] complex_norm_square[symmetric])
  finally show "cpow_neg_half D * cpow_neg_half D * D = 1" .
qed

lemma matrix_2x2:
  assumes "length U = 2" "length (U ! 0) = 2" "length (U ! 1) = 2"
  shows "U = [[U ! 0 ! 0, U ! 0 ! 1], [U ! 1 ! 0, U ! 1 ! 1]]"
proof -
  have two: "\<And>xs :: 'b list. length xs = 2 \<Longrightarrow> xs = [xs ! 0, xs ! 1]"
  proof -
    fix xs :: "'b list" assume "length xs = 2"
    then obtain x y where "xs = [x, y]"
      by (cases xs; cases "tl xs") auto
    then show "xs = [xs ! 0, xs ! 1]" by simp
  qed
  have "U = [U ! 0, U ! 1]" using two[OF assms(1)] .
  moreover have "U ! 0 = [U ! 0 ! 0, U ! 0 ! 1]" using two[OF assms(2)] .
  moreover have "U ! 1 = [U ! 1 ! 0, U ! 1 ! 1]" using two[OF assms(3)] .
  ultimately show ?thesis by metis
qed

lemma unitary_2x2_equations:
  assumes "mat_mul [[a, b], [c, d]] (conj_transpose [[a, b], [c, d]]) = eye 2"
  shows "a * cnj a + b * cnj b = 1" "a * cnj c + b * cnj d = 0" "c * cnj c + d * cnj d = 1"
  using assms
  by (simp_all add: mat_mul_def conj_transpose_def mk_mat_def nrows_def ncols_def upt2 eye_def)

lemma zyz_matrix_entries:
  "zyz_matrix (alpha, (theta, phi, lam)) =
     [[cis alpha * (cis (- phi / 2) * (complex_of_real (cos (theta / 2)) * cis (- lam / 2))),
       cis alpha * (cis (- phi / 2) * (- complex_of_real (sin (theta / 2)) * cis (lam / 2)))],
      [cis alpha * (cis (phi / 2) * (complex_of_real (sin (theta / 2)) * cis (- lam / 2))),
       cis alpha * (cis (phi / 2) * (complex_of_real (cos (theta / 2)) * cis (lam / 2)))]]"
  by (simp add: zyz_matrix_def mat_mul_def mk_mat_def nrows_def ncols_def upt2 rz_def ry_def)

lemma cis_Arg_cmod: "cis (Arg z) * complex_of_real (cmod z) = z"
  using rcis_cmod_Arg[of z] by (simp add: rcis_def mult.commute)

lemma cis_neg_Arg_cmod: "cis (- Arg z) * complex_of_real (cmod z) = cnj z"
proof -
  have "cnj (cis (Arg z) * complex_of_real (cmod z)) = cnj z" by (simp only: cis_Arg_cmod)
  then show ?thesis by (simp add: cis_cnj)
qed

lemma unit_cnj_mult: "cmod z = 1 \<Longrightarrow> cnj z * z = 1"
proof -
  assume "cmod z = 1"
  have "complex_of_real ((cmod z)\<^sup>2) = z * cnj z" by (rule complex_norm_square)
  then show "cnj z * z = 1" using \<open>cmod z = 1\<close> by (simp add: mult.commute)
qed

lemma zyz_reconstruct_scalars:
  fixes a b c d :: complex
  assumes E1: "a * cnj a + b * cnj b = 1" and E2: "a * cnj c + b * cnj d = 0"
    and E3: "c * cnj c + d * cnj d = 1"
  defines "coe \<equiv> cpow_neg_half (a * d - b * c)"
  defines "alpha \<equiv> - Arg coe"
  defines "half_theta \<equiv> atan2 (cmod (coe * c)) (cmod (coe * a))"
  defines "s \<equiv> Arg (coe * d)" and "t \<equiv> Arg (coe * c)"
  shows "cis alpha * (cis (- s) * complex_of_real (cos half_theta)) = a"
    and "cis alpha * (cis (- t) * (- complex_of_real (sin half_theta))) = b"
    and "cis alpha * (cis t * complex_of_real (sin half_theta)) = c"
    and "cis alpha * (cis s * complex_of_real (cos half_theta)) = d"
proof -
  have D: "cmod (a * d - b * c) = 1" using E1 E2 E3 by (rule det2_unit)
  have cu: "cmod coe = 1" and cD: "coe * coe * (a * d - b * c) = 1"
    unfolding coe_def using cpow_neg_half_unit[OF D] by simp_all
  have cc: "cnj coe * coe = 1" using cu by (rule unit_cnj_mult)
  have cc': "coe * cnj coe = 1" using cc by (simp add: mult.commute)
  define va vb vc vd where "va = coe * a" and "vb = coe * b" and "vc = coe * c" and "vd = coe * d"
  have V1: "va * cnj va + vb * cnj vb = 1"
  proof -
    have "va * cnj va + vb * cnj vb = (coe * cnj coe) * (a * cnj a + b * cnj b)"
      by (simp add: va_def vb_def algebra_simps)
    then show ?thesis using cc' E1 by simp
  qed
  have V2: "va * cnj vc + vb * cnj vd = 0"
  proof -
    have "va * cnj vc + vb * cnj vd = (coe * cnj coe) * (a * cnj c + b * cnj d)"
      by (simp add: va_def vb_def vc_def vd_def algebra_simps)
    then show ?thesis using E2 by simp
  qed
  have V4: "va * vd - vb * vc = 1"
  proof -
    have "va * vd - vb * vc = coe * coe * (a * d - b * c)"
      by (simp add: va_def vb_def vc_def vd_def algebra_simps)
    then show ?thesis using cD by simp
  qed
  have form: "vd = cnj va" "vb = - cnj vc" using su2_form[OF V1 V2 V4] by simp_all
  have n1: "(cmod va)\<^sup>2 + (cmod vc)\<^sup>2 = 1"
  proof -
    have a1: "complex_of_real ((cmod va)\<^sup>2) = va * cnj va" by (rule complex_norm_square)
    have a2: "complex_of_real ((cmod vb)\<^sup>2) = vb * cnj vb" by (rule complex_norm_square)
    have "complex_of_real ((cmod va)\<^sup>2 + (cmod vb)\<^sup>2) = 1"
      unfolding of_real_add a1 a2 V1 ..
    then have "(cmod va)\<^sup>2 + (cmod vb)\<^sup>2 = 1" using of_real_eq_1_iff by blast
    moreover have "cmod vb = cmod vc" by (simp add: form(2))
    ultimately show ?thesis by simp
  qed
  define w where "w = Complex (cmod va) (cmod vc)"
  have cw: "cmod w = 1" using n1 by (simp add: w_def cmod_def)
  then have wne: "w \<noteq> 0" by auto
  have ht: "half_theta = Arg w" by (simp add: half_theta_def atan2_def w_def va_def vc_def)
  have cs: "cos half_theta = cmod va" "sin half_theta = cmod vc"
    using cos_Arg[OF wne] sin_Arg[OF wne] cw by (simp_all add: ht w_def)
  have ca: "cis alpha = cnj coe"
  proof -
    have "cis alpha = cnj (cis (Arg coe))" by (simp add: alpha_def cis_cnj)
    then show ?thesis using cis_Arg_unit[OF cu] by simp
  qed
  have cancel_coe: "\<And>x. cnj coe * (coe * x) = x"
  proof -
    fix x :: complex
    have "cnj coe * (coe * x) = (cnj coe * coe) * x" by (simp add: algebra_simps)
    then show "cnj coe * (coe * x) = x" using cc by simp
  qed
  have s: "s = Arg vd" and t: "t = Arg vc" by (simp_all add: s_def t_def vd_def vc_def)
  have nd: "cmod vd = cmod va" by (simp add: form(1))
  show "cis alpha * (cis (- s) * complex_of_real (cos half_theta)) = a"
  proof -
    have "cis (- s) * complex_of_real (cos half_theta) = cnj vd"
      using cis_neg_Arg_cmod[of vd] by (simp add: s cs nd)
    also have "\<dots> = va" by (simp add: form(1))
    finally show ?thesis using cancel_coe[of a] by (simp add: ca va_def)
  qed
  show "cis alpha * (cis (- t) * (- complex_of_real (sin half_theta))) = b"
  proof -
    have "cis (- t) * (- complex_of_real (sin half_theta)) = - cnj vc"
      using cis_neg_Arg_cmod[of vc] by (simp add: t cs)
    also have "\<dots> = vb" by (simp add: form(2))
    finally show ?thesis using cancel_coe[of b] by (simp add: ca vb_def)
  qed
  show "cis alpha * (cis t * complex_of_real (sin half_theta)) = c"
  proof -
    have "cis t * complex_of_real (sin half_theta) = vc"
      using cis_Arg_cmod[of vc] by (simp add: t cs)
    then show ?thesis using cancel_coe[of c] by (simp add: ca vc_def)
  qed
  show "cis alpha * (cis s * complex_of_real (cos half_theta)) = d"
  proof -
    have "cis s * complex_of_real (cos half_theta) = vd"
      using cis_Arg_cmod[of vd] by (simp add: s cs nd)
    then show ?thesis using cancel_coe[of d] by (simp add: ca vd_def)
  qed
qed

lemma zyz_matrix_half_angles:
  "zyz_matrix (alpha, (2 * h, (2 * s + 2 * t) / 2, (2 * s - 2 * t) / 2)) =
     [[cis alpha * (cis (- s) * complex_of_real (cos h)),
       cis alpha * (cis (- t) * (- complex_of_real (sin h)))],
      [cis alpha * (cis t * complex_of_real (sin h)),
       cis alpha * (cis s * complex_of_real (cos h))]]"
proof -
  have p: "(2 * s + 2 * t) / 2 = s + t" and l: "(2 * s - 2 * t) / 2 = s - t" by simp_all
  have e1: "cis (- (s + t) / 2) * cis (- (s - t) / 2) = cis (- s)"
    by (simp add: cis_mult) (simp add: field_simps)
  have e2: "cis (- (s + t) / 2) * cis ((s - t) / 2) = cis (- t)"
    by (simp add: cis_mult) (simp add: field_simps)
  have e3: "cis ((s + t) / 2) * cis (- (s - t) / 2) = cis t"
    by (simp add: cis_mult) (simp add: field_simps)
  have e4: "cis ((s + t) / 2) * cis ((s - t) / 2) = cis s"
    by (simp add: cis_mult) (simp add: field_simps)
  have f1: "cis (- (s + t) / 2) * (complex_of_real (cos h) * cis (- (s - t) / 2)) =
      cis (- s) * complex_of_real (cos h)"
    using e1 by (simp add: mult.left_commute mult.commute)
  have f2: "cis (- (s + t) / 2) * (- complex_of_real (sin h) * cis ((s - t) / 2)) =
      cis (- t) * (- complex_of_real (sin h))"
    using e2 by (simp add: mult.left_commute mult.commute)
  have f3: "cis ((s + t) / 2) * (complex_of_real (sin h) * cis (- (s - t) / 2)) =
      cis t * complex_of_real (sin h)"
    using e3 by (simp add: mult.left_commute mult.commute)
  have f4: "cis ((s + t) / 2) * (complex_of_real (cos h) * cis ((s - t) / 2)) =
      cis s * complex_of_real (cos h)"
    using e4 by (simp add: mult.left_commute mult.commute)
  show ?thesis
    unfolding zyz_matrix_entries p l
    by (simp only: f1 f2 f3 f4 mult_divide_mult_cancel_left_if nonzero_mult_div_cancel_left
        zero_neq_numeral not_False_eq_True if_False)
qed

text \<open>
  Claim C6, as the code has it. \<open>params_zyz\<close> rounds \<open>V = c \<cdot> U\<close> to ten decimals before
  it reads the angles. For every \<open>2 \<times> 2\<close> array \<open>U\<close>, with \<open>c = det(U)\<^sup>-\<^sup>1\<^sup>/\<^sup>2\<close> and \<open>V\<close> the
  rounded \<open>c \<cdot> U\<close>, it returns \<open>\<alpha> = -arg c\<close>, \<open>\<theta> = 2 atan2(|V\<^sub>1\<^sub>0|, |V\<^sub>0\<^sub>0|)\<close>,
  \<open>\<phi> = (s + d)/2\<close> and \<open>\<lambda> = (s - d)/2\<close> with \<open>s = 2 arg V\<^sub>1\<^sub>1\<close>, \<open>d = 2 arg V\<^sub>1\<^sub>0\<close>. When \<open>U\<close> is
  exactly unitary and the rounding changes nothing, the result is the closed form of
  the specification, and \<open>U = e\<^sup>i\<^sup>\<alpha> R\<^sub>z(\<phi>) R\<^sub>y(\<theta>) R\<^sub>z(\<lambda>)\<close> holds entry for entry.
\<close>

theorem params_zyz_closed_form:
  assumes "length U = 2" and "length (U ! 0) = 2" and "length (U ! 1) = 2"
  shows "params_zyz U =
           (- Arg (cpow_neg_half (det2 U)),
            (2 * atan2 (cmod (round_complex 10 (cpow_neg_half (det2 U) * U ! 1 ! 0)))
                       (cmod (round_complex 10 (cpow_neg_half (det2 U) * U ! 0 ! 0))),
             (2 * Arg (round_complex 10 (cpow_neg_half (det2 U) * U ! 1 ! 1))
                + 2 * Arg (round_complex 10 (cpow_neg_half (det2 U) * U ! 1 ! 0))) / 2,
             (2 * Arg (round_complex 10 (cpow_neg_half (det2 U) * U ! 1 ! 1))
                - 2 * Arg (round_complex 10 (cpow_neg_half (det2 U) * U ! 1 ! 0))) / 2))
         \<and> (mat_mul U (conj_transpose U) = eye 2
              \<and> map (map (round_complex 10)) (map (map (\<lambda>z. cpow_neg_half (det2 U) * z)) U) =
                  map (map (\<lambda>z. cpow_neg_half (det2 U) * z)) U
            \<longrightarrow> params_zyz U = params_zyz_spec U \<and> zyz_matrix (params_zyz U) = U)"
proof (intro conjI impI)
  show "params_zyz U =
           (- Arg (cpow_neg_half (det2 U)),
            (2 * atan2 (cmod (round_complex 10 (cpow_neg_half (det2 U) * U ! 1 ! 0)))
                       (cmod (round_complex 10 (cpow_neg_half (det2 U) * U ! 0 ! 0))),
             (2 * Arg (round_complex 10 (cpow_neg_half (det2 U) * U ! 1 ! 1))
                + 2 * Arg (round_complex 10 (cpow_neg_half (det2 U) * U ! 1 ! 0))) / 2,
             (2 * Arg (round_complex 10 (cpow_neg_half (det2 U) * U ! 1 ! 1))
                - 2 * Arg (round_complex 10 (cpow_neg_half (det2 U) * U ! 1 ! 0))) / 2))"
    using assms by (simp add: params_zyz_def Let_def)
next
  assume h: "mat_mul U (conj_transpose U) = eye 2
              \<and> map (map (round_complex 10)) (map (map (\<lambda>z. cpow_neg_half (det2 U) * z)) U) =
                  map (map (\<lambda>z. cpow_neg_half (det2 U) * z)) U"
  then have unitary: "mat_mul U (conj_transpose U) = eye 2"
    and fixed: "map (map (round_complex 10)) (map (map (\<lambda>z. cpow_neg_half (det2 U) * z)) U) =
                  map (map (\<lambda>z. cpow_neg_half (det2 U) * z)) U" by blast+
  show eq: "params_zyz U = params_zyz_spec U"
    unfolding params_zyz_def params_zyz_spec_def Let_def fixed ..
  define a b c d where "a = U ! 0 ! 0" and "b = U ! 0 ! 1" and "c = U ! 1 ! 0" and "d = U ! 1 ! 1"
  have U: "U = [[a, b], [c, d]]"
    unfolding a_def b_def c_def d_def using assms(1-3) by (rule matrix_2x2)
  have E: "a * cnj a + b * cnj b = 1" "a * cnj c + b * cnj d = 0" "c * cnj c + d * cnj d = 1"
    using unitary_2x2_equations[OF unitary[unfolded U]] by simp_all
  define coe where "coe = cpow_neg_half (a * d - b * c)"
  have spec: "params_zyz_spec U =
      (- Arg coe, (2 * atan2 (cmod (coe * c)) (cmod (coe * a)),
                   (2 * Arg (coe * d) + 2 * Arg (coe * c)) / 2,
                   (2 * Arg (coe * d) - 2 * Arg (coe * c)) / 2))"
    by (simp add: params_zyz_spec_def Let_def U det2_def coe_def)
  have "zyz_matrix (params_zyz_spec U) = [[a, b], [c, d]]"
    unfolding spec zyz_matrix_half_angles
    using zyz_reconstruct_scalars[OF E] by (simp only: coe_def)
  then show "zyz_matrix (params_zyz U) = U" using eq U by simp
qed

lemma rint_small_pos: "0 \<le> x \<Longrightarrow> x < 1 / 2 \<Longrightarrow> rint x = 0"
proof -
  assume "0 \<le> x" "x < 1 / 2"
  then have "\<lfloor>x\<rfloor> = 0" by (intro floor_unique) simp_all
  then show ?thesis using \<open>x < 1 / 2\<close> by (simp add: rint_def Let_def)
qed

lemma rint_small_neg: "- 1 / 2 < x \<Longrightarrow> x < 0 \<Longrightarrow> rint x = 0"
proof -
  assume "- 1 / 2 < x" "x < 0"
  then have "\<lfloor>x\<rfloor> = - 1" by (intro floor_unique) simp_all
  then show ?thesis using \<open>- 1 / 2 < x\<close> by (simp add: rint_def Let_def)
qed

lemma rint_just_below: "of_int k - 1 / 2 < x \<Longrightarrow> x < of_int k \<Longrightarrow> rint x = k"
proof -
  assume "of_int k - 1 / 2 < x" "x < of_int k"
  then have "\<lfloor>x\<rfloor> = k - 1" by (intro floor_unique) simp_all
  then show ?thesis using \<open>of_int k - 1 / 2 < x\<close> by (simp add: rint_def Let_def)
qed

lemma round_decimals_p:
  "round_decimals 10 (9999999999999999999999 / 10000000000000000000001) = 1"
proof -
  have "rint (9999999999999999999999 / 10000000000000000000001 * 10 ^ 10) = 10000000000"
    using rint_just_below[of 10000000000
        "9999999999999999999999 / 10000000000000000000001 * 10 ^ 10"]
    by simp
  then show ?thesis by (simp add: round_decimals_def)
qed

lemma round_decimals_q:
  "round_decimals 10 (200000000000 / 10000000000000000000001) = 0"
proof -
  have "rint (200000000000 / 10000000000000000000001 * 10 ^ 10) = 0"
    by (rule rint_small_pos) simp_all
  then show ?thesis by (simp add: round_decimals_def)
qed

lemma round_decimals_neg_q:
  "round_decimals 10 (- (200000000000 / 10000000000000000000001)) = 0"
proof -
  have "rint (- (200000000000 / 10000000000000000000001) * 10 ^ 10) = 0"
    by (rule rint_small_neg) simp_all
  then show ?thesis by (simp add: round_decimals_def)
qed

lemma params_zyz_diagonal_rounded:
  assumes "z * w = 1" and "round_complex 10 z = 1" and "round_complex 10 w = 1"
  shows "params_zyz [[z, 0], [0, w]] = (0, (0, 0, 0))"
    and "snd (snd (params_zyz_spec [[z, 0], [0, w]])) = (Arg w, Arg w)"
proof -
  have det: "det2 [[z, 0], [0, w]] = 1" using assms(1) by (simp add: det2_def)
  show "params_zyz [[z, 0], [0, w]] = (0, (0, 0, 0))"
    unfolding params_zyz_def Let_def det cpow_neg_half_1
    by (simp add: assms(2,3) Arg_1 Arg_zero round_complex_0 atan2_def one_complex.code[symmetric])
  show "snd (snd (params_zyz_spec [[z, 0], [0, w]])) = (Arg w, Arg w)"
    unfolding params_zyz_spec_def Let_def det cpow_neg_half_1
    by (simp add: Arg_zero)
qed

text \<open>
  Claim C6 as it is worded, without the rounding, fails at the unitary diagonal matrix
  \<open>diag(z, conj z)\<close> with \<open>z = (n\<^sup>2 - 1 + 2n\<i>) / (n\<^sup>2 + 1)\<close>, \<open>n = 10\<^sup>1\<^sup>1\<close>: rounding turns
  \<open>V\<close> into the identity, so the code returns only zero angles, whereas the closed
  form has \<open>\<phi> = arg(conj z) \<noteq> 0\<close>.
\<close>

theorem params_zyz_rounding_counterexample:
  "mat_mul
     [[Complex (9999999999999999999999 / 10000000000000000000001)
               (200000000000 / 10000000000000000000001), 0],
      [0, Complex (9999999999999999999999 / 10000000000000000000001)
                  (- (200000000000 / 10000000000000000000001))]]
     (conj_transpose
        [[Complex (9999999999999999999999 / 10000000000000000000001)
                  (200000000000 / 10000000000000000000001), 0],
         [0, Complex (9999999999999999999999 / 10000000000000000000001)
                     (- (200000000000 / 10000000000000000000001))]]) = eye 2
   \<and> params_zyz
        [[Complex (9999999999999999999999 / 10000000000000000000001)
                  (200000000000 / 10000000000000000000001), 0],
         [0, Complex (9999999999999999999999 / 10000000000000000000001)
                     (- (200000000000 / 10000000000000000000001))]] = (0, (0, 0, 0))
   \<and> params_zyz
        [[Complex (9999999999999999999999 / 10000000000000000000001)
                  (200000000000 / 10000000000000000000001), 0],
         [0, Complex (9999999999999999999999 / 10000000000000000000001)
                     (- (200000000000 / 10000000000000000000001))]] \<noteq>
     params_zyz_spec
        [[Complex (9999999999999999999999 / 10000000000000000000001)
                  (200000000000 / 10000000000000000000001), 0],
         [0, Complex (9999999999999999999999 / 10000000000000000000001)
                     (- (200000000000 / 10000000000000000000001))]]"
proof -
  define p :: real where "p = 9999999999999999999999 / 10000000000000000000001"
  define q :: real where "q = 200000000000 / 10000000000000000000001"
  define U where "U = [[Complex p q, 0], [0, Complex p (- q)]]"
  have pq: "p * p + q * q = 1" by (simp add: p_def q_def)
  have zz: "Complex p q * Complex p (- q) = 1"
    using pq by (simp add: complex_eq_iff)
  have unitary: "mat_mul U (conj_transpose U) = eye 2"
    using pq
    by (simp add: U_def mat_mul_def conj_transpose_def mk_mat_def nrows_def ncols_def upt2 eye_def
        complex_eq_iff)
  have r1: "round_complex 10 (Complex p q) = 1"
    using round_decimals_p round_decimals_q
    by (simp add: round_complex_def p_def q_def complex_eq_iff)
  have r2: "round_complex 10 (Complex p (- q)) = 1"
    using round_decimals_p round_decimals_neg_q
    by (simp add: round_complex_def p_def q_def complex_eq_iff)
  have code: "params_zyz U = (0, (0, 0, 0))"
    unfolding U_def by (rule params_zyz_diagonal_rounded(1)[OF zz r1 r2])
  have qne: "q \<noteq> 0" by (simp add: q_def)
  have "Arg (Complex p (- q)) \<noteq> 0"
    using Arg_eq_0_real[of "Complex p (- q)"] qne by auto
  then have "snd (snd (params_zyz_spec U)) \<noteq> (0, 0)"
    unfolding U_def params_zyz_diagonal_rounded(2)[OF zz r1 r2] by simp
  then have ne: "params_zyz U \<noteq> params_zyz_spec U" using code by (metis snd_conv)
  show ?thesis using unitary code ne unfolding U_def p_def q_def by blast
qed

theorem params_zyz_closed_form_witness:
  "length [[3 / 5, - (4 / 5)], [4 / 5, 3 / 5 :: complex]] = 2
   \<and> mat_mul [[3 / 5, - (4 / 5)], [4 / 5, 3 / 5]]
         (conj_transpose [[3 / 5, - (4 / 5)], [4 / 5, 3 / 5]]) = eye 2
   \<and> params_zyz [[3 / 5, - (4 / 5)], [4 / 5, 3 / 5]] = (0, (2 * atan2 (4 / 5) (3 / 5), 0, 0))
   \<and> params_zyz [[3 / 5, - (4 / 5)], [4 / 5, 3 / 5]] =
       params_zyz_spec [[3 / 5, - (4 / 5)], [4 / 5, 3 / 5]]
   \<and> zyz_matrix (params_zyz [[3 / 5, - (4 / 5)], [4 / 5, 3 / 5]]) =
       [[3 / 5, - (4 / 5)], [4 / 5, 3 / 5]]"
proof -
  define U :: matrix where "U = [[3 / 5, - (4 / 5)], [4 / 5, 3 / 5]]"
  have unitary: "mat_mul U (conj_transpose U) = eye 2"
    by (simp add: U_def mat_mul_def conj_transpose_def mk_mat_def nrows_def ncols_def upt2 eye_def)
  have det: "det2 U = 1" by (simp add: U_def det2_def)
  have r35: "round_decimals 10 (3 / 5) = 3 / 5"
    using rint_of_int[of 6000000000] by (simp add: round_decimals_def)
  have r45: "round_decimals 10 (4 / 5) = 4 / 5"
    using rint_of_int[of 8000000000] by (simp add: round_decimals_def)
  have rm45: "round_decimals 10 (- (4 / 5)) = - (4 / 5)"
    using rint_of_int[of "- 8000000000"] by (simp add: round_decimals_def)
  have fixed: "map (map (round_complex 10)) (map (map (\<lambda>z. cpow_neg_half (det2 U) * z)) U) =
         map (map (\<lambda>z. cpow_neg_half (det2 U) * z)) U"
    unfolding det cpow_neg_half_1
    by (simp add: U_def round_complex_def r35 r45 rm45 round_decimals_0 complex_eq_iff)
  have l: "length U = 2" "length (U ! 0) = 2" "length (U ! 1) = 2"
    by (simp_all add: U_def)
  note t = params_zyz_closed_form [OF l]
  have both: "params_zyz U = params_zyz_spec U \<and> zyz_matrix (params_zyz U) = U"
    using conjunct2[OF t] unitary fixed by blast
  have e: "U ! 0 ! 0 = 3 / 5" "U ! 1 ! 0 = 4 / 5" "U ! 1 ! 1 = 3 / 5" by (simp_all add: U_def)
  have rc35: "round_complex 10 (3 / 5) = 3 / 5"
    by (simp add: round_complex_def r35 round_decimals_0 complex_eq_iff)
  have rc45: "round_complex 10 (4 / 5) = 4 / 5"
    by (simp add: round_complex_def r45 round_decimals_0 complex_eq_iff)
  have a35: "Arg (3 / 5) = 0" by (rule cis_Arg_unique) (simp_all add: sgn_eq norm_divide)
  have a45: "Arg (4 / 5) = 0" by (rule cis_Arg_unique) (simp_all add: sgn_eq norm_divide)
  have m35: "cmod (3 / 5) = 3 / 5" and m45: "cmod (4 / 5) = 4 / 5"
    by (simp_all add: norm_divide)
  have val: "params_zyz U = (0, (2 * atan2 (4 / 5) (3 / 5), 0, 0))"
    unfolding conjunct1[OF t] det cpow_neg_half_1 e
    by (simp add: rc35 rc45 a35 a45 m35 m45 Arg_1)
  show ?thesis using both val unitary l(1) unfolding U_def by blast
qed

end
